theory Spec2Isabelle
  imports Complex_Main
begin

section \<open>Data model\<close>

text \<open>
  The repository synthesises a grid of multispectral reflectance records
  (\<^verbatim>\<open>data_gen.py\<close>) and derives NDVI values from them (\<^verbatim>\<open>main.py\<close>).

  Python integers are modelled as \<^typ>\<open>int\<close>, Python strings as \<^typ>\<open>string\<close>.
  Python floats are modelled as \<^typ>\<open>real\<close>: the arithmetic is exact, so rounding,
  overflow and the infinities are outside the model. The one special value the code
  produces on purpose, \<^verbatim>\<open>float("nan")\<close>, is modelled where it can occur (type \<open>pyfloat\<close>
  below).
\<close>

record spectral_record =
  plot_id :: string
  row :: int
  col :: int
  blue_480 :: real
  green_560 :: real
  red_665 :: real
  red_edge_705 :: real
  red_edge_740 :: real
  nir_842 :: real
  nir2_865 :: real
  swir_1610 :: real
  swir_2190 :: real

text \<open>The exceptions the modelled code can raise.\<close>

datatype py_error =
  ZeroDivisionError | IndexError | KeyError | ValueError | TypeError | FileNotFoundError

section \<open>Python primitives used by the generator\<close>

text \<open>\<^verbatim>\<open>_clamp(value, lo, hi) = max(lo, min(hi, value))\<close>\<close>

definition clamp :: "real \<Rightarrow> real \<Rightarrow> real \<Rightarrow> real" where
  "clamp v lo hi = max lo (min hi v)"

text \<open>True division \<^verbatim>\<open>a / b\<close> raises on a zero divisor.\<close>

definition py_div :: "real \<Rightarrow> real \<Rightarrow> py_error + real" where
  "py_div a b = (if b = 0 then Inl ZeroDivisionError else Inr (a / b))"

text \<open>List indexing \<^verbatim>\<open>xs[i]\<close>: a negative index counts from the end, an index out of
  range raises.\<close>

definition py_index :: "'a list \<Rightarrow> int \<Rightarrow> py_error + 'a" where
  "py_index xs i =
     (if 0 \<le> i \<and> i < int (length xs) then Inr (xs ! nat i)
      else if i < 0 \<and> - int (length xs) \<le> i then Inr (xs ! nat (int (length xs) + i))
      else Inl IndexError)"

text \<open>\<^verbatim>\<open>range(n)\<close>: the integers \<open>0, \<dots>, n - 1\<close>, empty when \<open>n \<le> 0\<close>.\<close>

definition py_range :: "int \<Rightarrow> int list" where
  "py_range n = map int [0..<nat n]"

subsection \<open>Decimal formatting of integers\<close>

definition digit_char :: "nat \<Rightarrow> char" where
  "digit_char d = ''0123456789'' ! d"

fun str_nat :: "nat \<Rightarrow> string" where
  "str_nat n = (if n < 10 then [digit_char n] else str_nat (n div 10) @ [digit_char (n mod 10)])"

declare str_nat.simps [simp del]

text \<open>\<^verbatim>\<open>str(i)\<close> for an integer.\<close>

definition str_int :: "int \<Rightarrow> string" where
  "str_int i = (if i < 0 then CHR ''-'' # str_nat (nat (- i)) else str_nat (nat i))"

definition zfill :: "nat \<Rightarrow> string \<Rightarrow> string" where
  "zfill w s = replicate (w - length s) CHR ''0'' @ s"

text \<open>The format specification \<^verbatim>\<open>03d\<close>: at least three characters, zero-padded
  after the sign.\<close>

definition fmt_03d :: "int \<Rightarrow> string" where
  "fmt_03d i =
     (if i < 0 then CHR ''-'' # zfill 2 (str_nat (nat (- i))) else zfill 3 (str_nat (nat i)))"

text \<open>\<^verbatim>\<open>f"R{r + 1:03d}C{c + 1:03d}"\<close>\<close>

definition make_plot_id :: "int \<Rightarrow> int \<Rightarrow> string" where
  "make_plot_id r c = ''R'' @ fmt_03d (r + 1) @ ''C'' @ fmt_03d (c + 1)"

section \<open>The random source\<close>

text \<open>
  \<^verbatim>\<open>random.Random\<close> is the standard library's generator, not code of this repository.
  It is a parameter of the model: a state type \<open>'s\<close> with the four operations the
  generator calls. Each drawing operation returns the value drawn and the next state.
\<close>

record 's rng =
  rng_seed :: "int \<Rightarrow> 's"
  rng_random :: "'s \<Rightarrow> real \<times> 's"
  rng_uniform :: "real \<Rightarrow> real \<Rightarrow> 's \<Rightarrow> real \<times> 's"
  rng_gauss :: "real \<Rightarrow> real \<Rightarrow> 's \<Rightarrow> real \<times> 's"

text \<open>The documented contract of \<^verbatim>\<open>uniform(a, b)\<close> for \<open>a \<le> b\<close>: the value lies
  between \<open>a\<close> and \<open>b\<close>.\<close>

definition uniform_in_bounds :: "'s rng \<Rightarrow> bool" where
  "uniform_in_bounds R \<longleftrightarrow>
     (\<forall>a b s. a \<le> b \<longrightarrow> a \<le> fst (rng_uniform R a b s) \<and> fst (rng_uniform R a b s) \<le> b)"

text \<open>Two generators, possibly with different state types, are observationally
  equivalent under a relation \<open>rel\<close> on their states when seeding gives related states
  and every operation on related states draws the same value and leaves related states.\<close>

definition rng_equiv :: "'s rng \<Rightarrow> 't rng \<Rightarrow> ('s \<Rightarrow> 't \<Rightarrow> bool) \<Rightarrow> bool" where
  "rng_equiv R1 R2 rel \<longleftrightarrow>
     (\<forall>seed. rel (rng_seed R1 seed) (rng_seed R2 seed)) \<and>
     (\<forall>s t. rel s t \<longrightarrow>
        fst (rng_random R1 s) = fst (rng_random R2 t) \<and>
        rel (snd (rng_random R1 s)) (snd (rng_random R2 t))) \<and>
     (\<forall>a b s t. rel s t \<longrightarrow>
        fst (rng_uniform R1 a b s) = fst (rng_uniform R2 a b t) \<and>
        rel (snd (rng_uniform R1 a b s)) (snd (rng_uniform R2 a b t))) \<and>
     (\<forall>mu sigma s t. rel s t \<longrightarrow>
        fst (rng_gauss R1 mu sigma s) = fst (rng_gauss R2 mu sigma t) \<and>
        rel (snd (rng_gauss R1 mu sigma s)) (snd (rng_gauss R2 mu sigma t)))"

text \<open>A small concrete stream for instantiating the theorems: the state is a counter,
  and every draw is a fixed function of the counter.\<close>

definition counter_unit :: "nat \<Rightarrow> real" where
  "counter_unit n = real (n mod 10) / 10"

definition counter_rng :: "nat rng" where
  "counter_rng =
     \<lparr> rng_seed = (\<lambda>seed. nat \<bar>seed\<bar>),
       rng_random = (\<lambda>s. (counter_unit s, Suc s)),
       rng_uniform = (\<lambda>a b s. (a + (b - a) * counter_unit s, Suc s)),
       rng_gauss = (\<lambda>mu sigma s. (mu + (counter_unit s - 1 / 2) * sigma, Suc s)) \<rparr>"

text \<open>The same stream over integer states that count upwards from 100.\<close>

definition offset_rng :: "int rng" where
  "offset_rng =
     \<lparr> rng_seed = (\<lambda>seed. \<bar>seed\<bar> + 100),
       rng_random = (\<lambda>s. (counter_unit (nat (s - 100)), s + 1)),
       rng_uniform = (\<lambda>a b s. (a + (b - a) * counter_unit (nat (s - 100)), s + 1)),
       rng_gauss = (\<lambda>mu sigma s. (mu + (counter_unit (nat (s - 100)) - 1 / 2) * sigma, s + 1)) \<rparr>"

section \<open>The grid generator\<close>

text \<open>The two stress pockets: centre row, centre column and variance of each.\<close>

definition stress_centers :: "int \<Rightarrow> int \<Rightarrow> (real \<times> real \<times> real) list" where
  "stress_centers rows cols =
     [(real_of_int rows * 0.65, real_of_int cols * 0.68, (real_of_int rows * 0.20)\<^sup>2),
      (real_of_int rows * 0.30, real_of_int cols * 0.25, (real_of_int rows * 0.18)\<^sup>2)]"

text \<open>The loop \<^verbatim>\<open>for cr, cc, sigma2 in stress_centers\<close>, accumulating into \<open>stress\<close>.\<close>

fun stress_loop :: "(real \<times> real \<times> real) list \<Rightarrow> int \<Rightarrow> int \<Rightarrow> real \<Rightarrow> py_error + real" where
  "stress_loop [] r c stress = Inr stress"
| "stress_loop ((cr, cc, sigma2) # rest) r c stress =
     (let dist2 = (real_of_int r - cr)\<^sup>2 + (real_of_int c - cc)\<^sup>2 in
      case py_div (- dist2) (2 * sigma2) of
        Inl e \<Rightarrow> Inl e
      | Inr q \<Rightarrow> stress_loop rest r c (stress + exp q))"

text \<open>The stress of a cell: the loop from \<open>0.0\<close>, then the clamp.\<close>

definition cell_stress :: "(real \<times> real \<times> real) list \<Rightarrow> int \<Rightarrow> int \<Rightarrow> py_error + real" where
  "cell_stress centers r c =
     (case stress_loop centers r c 0 of
        Inl e \<Rightarrow> Inl e
      | Inr stress \<Rightarrow> Inr (clamp stress 0 1.6))"

text \<open>The nine bands as local variables of the loop body.\<close>

record bands =
  b_blue :: real
  b_green :: real
  b_red :: real
  b_red_edge :: real
  b_red_edge2 :: real
  b_nir :: real
  b_nir2 :: real
  b_swir1 :: real
  b_swir2 :: real

text \<open>Lines 58 to 78 of the loop body: the target NDVI and the nine clamped bands, drawing
  from the stream in the order of the source.\<close>

definition synth_bands :: "'s rng \<Rightarrow> real \<Rightarrow> real \<Rightarrow> real \<Rightarrow> 's \<Rightarrow> bands \<times> 's" where
  "synth_bands R stress fertility illumination s0 =
     (let (g_target, s1) = rng_gauss R 0 0.02 s0;
          target_ndvi = clamp (0.70 + fertility - 0.40 * stress + g_target) 0.05 0.92;
          (u_total, s2) = rng_uniform R 0.42 0.80 s1;
          total_reflectance = illumination * u_total;
          nir = (target_ndvi + 1) * total_reflectance / 2;
          red = total_reflectance - nir;
          (g_nir, s3) = rng_gauss R 0 0.006 s2;
          nir = nir + g_nir;
          (g_red, s4) = rng_gauss R 0 0.006 s3;
          red = red + g_red;
          nir = clamp nir 0.01 0.95;
          red = clamp red 0.01 0.95;
          (g_blue, s5) = rng_gauss R 0 0.006 s4;
          blue = clamp (0.04 + 0.07 * (1.1 - target_ndvi) + g_blue) 0.02 0.22;
          (g_green, s6) = rng_gauss R 0 0.01 s5;
          green = clamp (0.20 + 0.12 * (0.9 - stress) + g_green) 0.12 0.42;
          (g_re, s7) = rng_gauss R 0 0.008 s6;
          red_edge = clamp (0.18 + 0.40 * target_ndvi + g_re) 0.10 0.70;
          (g_re2, s8) = rng_gauss R 0 0.006 s7;
          red_edge2 = clamp (red_edge + 0.05 * (target_ndvi - 0.5) + g_re2) 0.10 0.75;
          (g_nir2, s9) = rng_gauss R 0 0.004 s8;
          nir2 = clamp (nir + g_nir2 + 0.02 * (1 - stress)) 0.05 0.95;
          (g_sw1, s10) = rng_gauss R 0 0.01 s9;
          swir1 = clamp (0.22 + 0.28 * stress + g_sw1) 0.10 0.70;
          (g_sw2, s11) = rng_gauss R 0 0.01 s10;
          swir2 = clamp (swir1 + 0.05 * stress + g_sw2) 0.10 0.75
      in (\<lparr> b_blue = blue, b_green = green, b_red = red, b_red_edge = red_edge,
            b_red_edge2 = red_edge2, b_nir = nir, b_nir2 = nir2,
            b_swir1 = swir1, b_swir2 = swir2 \<rparr>, s11))"

text \<open>The in-place scaling of the thin-cloud branch (lines 84 to 92).\<close>

definition cloud_scale :: "real \<Rightarrow> real \<Rightarrow> bands \<Rightarrow> bands" where
  "cloud_scale factor_vis factor_nir b =
     \<lparr> b_blue = b_blue b * factor_vis,
       b_green = b_green b * factor_vis,
       b_red = b_red b * factor_vis,
       b_red_edge = b_red_edge b * factor_vis,
       b_red_edge2 = b_red_edge2 b * factor_vis,
       b_nir = b_nir b * factor_nir,
       b_nir2 = b_nir2 b * factor_nir,
       b_swir1 = b_swir1 b * (factor_vis * 0.9),
       b_swir2 = b_swir2 b * (factor_vis * 0.9) \<rparr>"

text \<open>Lines 81 to 92: \<^verbatim>\<open>if rng.random() < 0.02\<close>, two more draws and the scaling.\<close>

definition thin_cloud :: "'s rng \<Rightarrow> bands \<Rightarrow> 's \<Rightarrow> bands \<times> 's" where
  "thin_cloud R b s0 =
     (let (u, s1) = rng_random R s0 in
      if u < 0.02 then
        (let (factor_vis, s2) = rng_uniform R 1.05 1.12 s1;
             (factor_nir, s3) = rng_uniform R 0.90 0.96 s2
         in (cloud_scale factor_vis factor_nir b, s3))
      else (b, s1))"

text \<open>Lines 94 to 110: the record appended for cell \<open>(r, c)\<close>.\<close>

definition make_record :: "int \<Rightarrow> int \<Rightarrow> bands \<Rightarrow> spectral_record" where
  "make_record r c b =
     \<lparr> plot_id = make_plot_id r c, row = r, col = c,
       blue_480 = b_blue b, green_560 = b_green b, red_665 = b_red b,
       red_edge_705 = b_red_edge b, red_edge_740 = b_red_edge2 b,
       nir_842 = b_nir b, nir2_865 = b_nir2 b,
       swir_1610 = b_swir1 b, swir_2190 = b_swir2 b \<rparr>"

text \<open>The body of the inner loop (lines 49 to 110) for cell \<open>(r, c)\<close>: the new record and
  the state of the stream after it, or the exception raised.\<close>

definition gen_cell ::
  "'s rng \<Rightarrow> int \<Rightarrow> int \<Rightarrow> (real \<times> real \<times> real) list \<Rightarrow> real list \<Rightarrow> real list \<Rightarrow>
     int \<Rightarrow> int \<Rightarrow> 's \<Rightarrow> py_error + (spectral_record \<times> 's)" where
  "gen_cell R rows cols centers row_gradient col_bias r c s0 =
     (case cell_stress centers r c of
        Inl e \<Rightarrow> Inl e
      | Inr stress \<Rightarrow>
     (case py_div (real_of_int r) (real_of_int rows) of
        Inl e \<Rightarrow> Inl e
      | Inr r_frac \<Rightarrow>
     (case py_div (real_of_int c) (real_of_int cols) of
        Inl e \<Rightarrow> Inl e
      | Inr c_frac \<Rightarrow>
     (let fertility = 0.15 * (1 - r_frac) + 0.05 * c_frac;
          (u_illum, s1) = rng_uniform R 0.93 1.07 s0 in
      case py_index row_gradient r of
        Inl e \<Rightarrow> Inl e
      | Inr rg \<Rightarrow>
     (case py_index col_bias c of
        Inl e \<Rightarrow> Inl e
      | Inr cb \<Rightarrow>
     (let illumination = u_illum * rg * cb;
          (b, s2) = synth_bands R stress fertility illumination s1;
          (b', s3) = thin_cloud R b s2
      in Inr (make_record r c b', s3)))))))"

text \<open>The inner loop \<^verbatim>\<open>for c in range(cols)\<close>; \<open>records\<close> is the list appended to.\<close>

fun gen_row ::
  "'s rng \<Rightarrow> int \<Rightarrow> int \<Rightarrow> (real \<times> real \<times> real) list \<Rightarrow> real list \<Rightarrow> real list \<Rightarrow>
     int \<Rightarrow> int list \<Rightarrow> 's \<Rightarrow> spectral_record list \<Rightarrow> py_error + (spectral_record list \<times> 's)" where
  "gen_row R rows cols centers row_gradient col_bias r [] s records = Inr (records, s)"
| "gen_row R rows cols centers row_gradient col_bias r (c # cs) s records =
     (case gen_cell R rows cols centers row_gradient col_bias r c s of
        Inl e \<Rightarrow> Inl e
      | Inr (rec, s') \<Rightarrow>
          gen_row R rows cols centers row_gradient col_bias r cs s' (records @ [rec]))"

text \<open>The outer loop \<^verbatim>\<open>for r in range(rows)\<close>.\<close>

fun gen_rows ::
  "'s rng \<Rightarrow> int \<Rightarrow> int \<Rightarrow> (real \<times> real \<times> real) list \<Rightarrow> real list \<Rightarrow> real list \<Rightarrow>
     int list \<Rightarrow> 's \<Rightarrow> spectral_record list \<Rightarrow> py_error + (spectral_record list \<times> 's)" where
  "gen_rows R rows cols centers row_gradient col_bias [] s records = Inr (records, s)"
| "gen_rows R rows cols centers row_gradient col_bias (r # rs) s records =
     (case gen_row R rows cols centers row_gradient col_bias r (py_range cols) s records of
        Inl e \<Rightarrow> Inl e
      | Inr (records', s') \<Rightarrow>
          gen_rows R rows cols centers row_gradient col_bias rs s' records')"

text \<open>\<^verbatim>\<open>[rng.gauss(1.0, 0.01) for _ in range(cols)]\<close>: one draw per element, in order.\<close>

fun draw_col_bias :: "'s rng \<Rightarrow> int list \<Rightarrow> 's \<Rightarrow> real list \<times> 's" where
  "draw_col_bias R [] s = ([], s)"
| "draw_col_bias R (_ # cs) s =
     (let (g, s1) = rng_gauss R 1 0.01 s;
          (gs, s2) = draw_col_bias R cs s1
      in (g # gs, s2))"

text \<open>\<^verbatim>\<open>generate_spectral_grid(rows, cols, seed)\<close>\<close>

definition generate_spectral_grid ::
  "'s rng \<Rightarrow> int \<Rightarrow> int \<Rightarrow> int \<Rightarrow> py_error + spectral_record list" where
  "generate_spectral_grid R rows cols seed =
     (let s0 = rng_seed R seed;
          centers = stress_centers rows cols;
          (col_bias, s1) = draw_col_bias R (py_range cols) s0;
          row_gradient = map (\<lambda>r. 1 + 0.04 * sin (real_of_int r / 11)) (py_range rows)
      in case gen_rows R rows cols centers row_gradient col_bias (py_range rows) s1 [] of
           Inl e \<Rightarrow> Inl e
         | Inr (records, s) \<Rightarrow> Inr records)"


subsection \<open>Reading decimal digits\<close>

text \<open>Reading decimal digits back, the inverse of \<open>str_nat\<close>.\<close>

definition digit_val :: "char \<Rightarrow> nat" where
  "digit_val ch = of_char ch - 48"

definition is_digit :: "char \<Rightarrow> bool" where
  "is_digit ch \<longleftrightarrow> ch \<in> set ''0123456789''"

definition nat_of_digits :: "string \<Rightarrow> nat" where
  "nat_of_digits s = foldl (\<lambda>acc ch. 10 * acc + digit_val ch) 0 s"


section \<open>Auxiliary notions for the statements\<close>

text \<open>The stress of cell \<open>(r, c)\<close> written out: two Gaussian pockets, summed and clamped.\<close>

definition stress_value :: "int \<Rightarrow> int \<Rightarrow> int \<Rightarrow> int \<Rightarrow> real" where
  "stress_value rows cols r c =
     clamp (exp (- ((real_of_int r - real_of_int rows * 0.65)\<^sup>2 + (real_of_int c - real_of_int cols * 0.68)\<^sup>2) / (2 * (real_of_int rows * 0.20)\<^sup>2))
          + exp (- ((real_of_int r - real_of_int rows * 0.30)\<^sup>2 + (real_of_int c - real_of_int cols * 0.25)\<^sup>2) / (2 * (real_of_int rows * 0.18)\<^sup>2))) 0 1.6"

text \<open>A record is \<open>synthesized\<close> for cell \<open>(r, c)\<close> when it is the record the loop body builds
  from the bands that \<open>synth_bands\<close> and then \<open>thin_cloud\<close> return, for some stress,
  fertility, illumination and state of the stream.\<close>

definition synthesized :: "'s rng \<Rightarrow> int \<Rightarrow> int \<Rightarrow> spectral_record \<Rightarrow> bool" where
  "synthesized R r c rec \<longleftrightarrow>
     (\<exists>stress fertility illumination s.
        rec = make_record r c
          (fst (thin_cloud R (fst (synth_bands R stress fertility illumination s))
                  (snd (synth_bands R stress fertility illumination s)))))"

definition cell_key :: "spectral_record \<Rightarrow> int \<times> int" where
  "cell_key rec = (row rec, col rec)"

text \<open>The nine bands of a record, and the clamp interval of each band (lines 68 to 78).\<close>

definition bands_of :: "spectral_record \<Rightarrow> bands" where
  "bands_of rec =
     \<lparr> b_blue = blue_480 rec, b_green = green_560 rec, b_red = red_665 rec,
       b_red_edge = red_edge_705 rec, b_red_edge2 = red_edge_740 rec,
       b_nir = nir_842 rec, b_nir2 = nir2_865 rec,
       b_swir1 = swir_1610 rec, b_swir2 = swir_2190 rec \<rparr>"

definition within_clamp_intervals :: "bands \<Rightarrow> bool" where
  "within_clamp_intervals b \<longleftrightarrow>
     0.02 \<le> b_blue b \<and> b_blue b \<le> 0.22 \<and>
     0.12 \<le> b_green b \<and> b_green b \<le> 0.42 \<and>
     0.01 \<le> b_red b \<and> b_red b \<le> 0.95 \<and>
     0.10 \<le> b_red_edge b \<and> b_red_edge b \<le> 0.70 \<and>
     0.10 \<le> b_red_edge2 b \<and> b_red_edge2 b \<le> 0.75 \<and>
     0.01 \<le> b_nir b \<and> b_nir b \<le> 0.95 \<and>
     0.05 \<le> b_nir2 b \<and> b_nir2 b \<le> 0.95 \<and>
     0.10 \<le> b_swir1 b \<and> b_swir1 b \<le> 0.70 \<and>
     0.10 \<le> b_swir2 b \<and> b_swir2 b \<le> 0.75"

section \<open>The index analyser and the visualiser (main.py)\<close>

text \<open>A float that may be \<^verbatim>\<open>nan\<close>: the result of \<^verbatim>\<open>ndvi\<close>.\<close>

datatype pyfloat = Num real | NaN

text \<open>\<^verbatim>\<open>ndvi(red, nir)\<close>\<close>

definition ndvi :: "real \<Rightarrow> real \<Rightarrow> pyfloat" where
  "ndvi red nir =
     (let denom = nir + red in
      if denom = 0 then NaN else Num ((nir - red) / denom))"

text \<open>One element of the list \<open>run_example\<close> returns: \<open>(row, col, plot_id, ndvi)\<close>.\<close>

type_synonym ndvi_result = "int \<times> int \<times> string \<times> pyfloat"

text \<open>
  The records are mutable Python objects that the caller shares with \<open>run_example\<close>. They
  live in a store (\<open>heap\<close>), and a sequence of records is a list of addresses. The world
  of a run holds the store, what has been printed, and the image files written.

  A printed line is kept as its kind and the values it shows; the text formatting of
  the numbers (\<^verbatim>\<open>6.3f\<close>, \<^verbatim>\<open>.3f\<close>) is not modelled. The file that matplotlib writes is
  kept as the grid and the settings handed to the library.
\<close>

type_synonym addr = nat

datatype out_line =
    Header int int
  | PlotLine string int int pyfloat
  | MoreLine int
  | SummaryHeader
  | SummaryLine pyfloat pyfloat pyfloat
  | StressedLine "string list"
  | NoStressLine

record heatmap =
  hm_grid :: "pyfloat list list"
  hm_cmap :: string
  hm_vmin :: real
  hm_vmax :: real
  hm_origin :: string
  hm_title :: string
  hm_xlabel :: string
  hm_ylabel :: string
  hm_colorbar :: string
  hm_dpi :: nat

record world =
  heap :: "addr \<Rightarrow> spectral_record"
  stdout :: "out_line list"
  files :: "string \<rightharpoonup> heatmap"

text \<open>The first loop of \<open>run_example\<close> (lines 26 to 28).\<close>

fun results_loop :: "world \<Rightarrow> addr list \<Rightarrow> ndvi_result list \<Rightarrow> ndvi_result list" where
  "results_loop w [] results = results"
| "results_loop w (a # records) results =
     (let rec = heap w a;
          v = ndvi (red_665 rec) (nir_842 rec)
      in results_loop w records (results @ [(row rec, col rec, plot_id rec, v)]))"

text \<open>\<^verbatim>\<open>[v for _, _, _, v in results if math.isfinite(v)]\<close>\<close>

fun finite_values :: "ndvi_result list \<Rightarrow> real list" where
  "finite_values [] = []"
| "finite_values ((_, _, _, Num x) # results) = x # finite_values results"
| "finite_values ((_, _, _, NaN) # results) = finite_values results"

text \<open>Lines 30 to 33: mean, minimum and maximum of the finite values, each \<^verbatim>\<open>nan\<close> when
  there is none. \<^verbatim>\<open>min\<close> and \<^verbatim>\<open>max\<close> scan the list from its first element.\<close>

definition field_summary :: "ndvi_result list \<Rightarrow> pyfloat \<times> pyfloat \<times> pyfloat" where
  "field_summary results =
     (let valid = finite_values results;
          mean_ndvi = (if valid \<noteq> [] then Num (sum_list valid / real (length valid)) else NaN);
          lo = (case valid of [] \<Rightarrow> NaN | x # xs \<Rightarrow> Num (fold min xs x));
          hi = (case valid of [] \<Rightarrow> NaN | x # xs \<Rightarrow> Num (fold max xs x))
      in (mean_ndvi, lo, hi))"

text \<open>The preview loop (lines 37 to 40), which stops at \<open>preview_count\<close>.\<close>

fun preview_loop :: "int \<Rightarrow> int \<Rightarrow> ndvi_result list \<Rightarrow> out_line list" where
  "preview_loop preview_count idx [] = []"
| "preview_loop preview_count idx ((r, c, pid, v) # results) =
     (if idx \<ge> preview_count then []
      else PlotLine pid (r + 1) (c + 1) v # preview_loop preview_count (idx + 1) results)"

text \<open>\<^verbatim>\<open>value < 0.30\<close>: false for \<^verbatim>\<open>nan\<close>.\<close>

fun py_less :: "pyfloat \<Rightarrow> real \<Rightarrow> bool" where
  "py_less (Num x) y \<longleftrightarrow> x < y"
| "py_less NaN y \<longleftrightarrow> False"

text \<open>\<^verbatim>\<open>run_example(records, preview_count)\<close>: the results and the world afterwards.\<close>

definition run_example :: "world \<Rightarrow> addr list \<Rightarrow> int \<Rightarrow> ndvi_result list \<times> world" where
  "run_example w records preview_count =
     (let results = results_loop w records [];
          (mean_ndvi, lo, hi) = field_summary results;
          n = int (length results);
          shown = min preview_count n;
          stressed = map (\<lambda>(r, c, pid, v). pid) (filter (\<lambda>(r, c, pid, v). py_less v 0.30) results);
          printed =
            [Header shown n]
            @ preview_loop preview_count 0 results
            @ (if shown < n then [MoreLine (n - shown)] else [])
            @ [SummaryHeader, SummaryLine mean_ndvi lo hi]
            @ (if stressed \<noteq> [] then [StressedLine stressed] else [NoStressLine])
      in (results, w\<lparr>stdout := stdout w @ printed\<rparr>))"

text \<open>The loop of \<open>visualize_ndvi\<close> (lines 62 to 64) over a grid of \<open>rows\<close> lists of \<open>cols\<close>
  values.\<close>

fun fill_grid :: "int \<Rightarrow> int \<Rightarrow> pyfloat list list \<Rightarrow> ndvi_result list \<Rightarrow> pyfloat list list" where
  "fill_grid rows cols grid [] = grid"
| "fill_grid rows cols grid ((r, c, _, v) # results) =
     fill_grid rows cols
       (if 0 \<le> r \<and> r < rows \<and> 0 \<le> c \<and> c < cols
        then grid[nat r := (grid ! nat r)[nat c := v]] else grid)
       results"

text \<open>\<^verbatim>\<open>visualize_ndvi(results, rows, cols, outfile)\<close>\<close>

definition visualize_ndvi :: "world \<Rightarrow> ndvi_result list \<Rightarrow> int \<Rightarrow> int \<Rightarrow> string \<Rightarrow> world" where
  "visualize_ndvi w results rows cols outfile =
     (let grid = map (\<lambda>_. map (\<lambda>_. NaN) (py_range cols)) (py_range rows);
          grid = fill_grid rows cols grid results;
          img = \<lparr> hm_grid = grid, hm_cmap = ''YlGn'', hm_vmin = 0.0, hm_vmax = 0.9,
                  hm_origin = ''lower'', hm_title = ''Synthetic Field NDVI (heatmap)'',
                  hm_xlabel = ''Column index (0-based)'', hm_ylabel = ''Row index (0-based)'',
                  hm_colorbar = ''NDVI'', hm_dpi = 200 \<rparr>
      in w\<lparr>files := (files w)(outfile \<mapsto> img)\<rparr>)"

text \<open>The NDVI numbers of the records whose denominator is not zero, in order: what the
  summary statistics are taken over according to the specification.\<close>

definition defined_ndvi_values :: "world \<Rightarrow> addr list \<Rightarrow> real list" where
  "defined_ndvi_values w records =
     map (\<lambda>a. (nir_842 (heap w a) - red_665 (heap w a)) / (nir_842 (heap w a) + red_665 (heap w a)))
       (filter (\<lambda>a. nir_842 (heap w a) + red_665 (heap w a) \<noteq> 0) records)"

text \<open>A store with three records for instantiating the theorems: NDVI \<open>0.5\<close>, undefined
  (red and NIR both zero) and \<open>0.25\<close>.\<close>

definition example_record :: "string \<Rightarrow> int \<Rightarrow> int \<Rightarrow> real \<Rightarrow> real \<Rightarrow> spectral_record" where
  "example_record pid r c red nir =
     \<lparr> plot_id = pid, row = r, col = c, blue_480 = 0.05, green_560 = 0.2, red_665 = red,
       red_edge_705 = 0.3, red_edge_740 = 0.35, nir_842 = nir, nir2_865 = nir,
       swir_1610 = 0.25, swir_2190 = 0.3 \<rparr>"

definition example_world :: world where
  "example_world =
     \<lparr> heap = (\<lambda>a. if a = 0 then example_record ''R001C001'' 0 0 0.2 0.6
                   else if a = 1 then example_record ''R001C002'' 0 1 0 0
                   else example_record ''R001C003'' 0 2 0.3 0.5),
       stdout = [], files = Map.empty \<rparr>"

section \<open>The dataset codec (save and load as CSV)\<close>

text \<open>
  The codec rests on the standard library: string formatting, \<^verbatim>\<open>int\<close>, \<^verbatim>\<open>float\<close>, the
  \<^verbatim>\<open>csv\<close> module and text files. These are modelled as far as the two functions use them.
\<close>

subsection \<open>Formatting and parsing numbers\<close>

text \<open>Rounding to the nearest integer, ties to the even one: how \<^verbatim>\<open>format\<close> rounds.\<close>

definition round_half_even :: "real \<Rightarrow> int" where
  "round_half_even y =
     (let f = \<lfloor>y\<rfloor>; d = y - of_int f in
      if d < 1 / 2 then f
      else if 1 / 2 < d then f + 1
      else if even f then f else f + 1)"

text \<open>The format specification \<^verbatim>\<open>.4f\<close>: sign, integer part, a point and four digits.\<close>

definition fmt_4f :: "real \<Rightarrow> string" where
  "fmt_4f x =
     (let q = nat (round_half_even (\<bar>x\<bar> * 10000));
          body = str_nat (q div 10000) @ ''.'' @ zfill 4 (str_nat (q mod 10000))
      in if x < 0 then CHR ''-'' # body else body)"

text \<open>\<^verbatim>\<open>int(s)\<close> and \<^verbatim>\<open>float(s)\<close> on what a CSV cell holds. The argument is \<open>None\<close> for a cell
  missing from a short row (\<^verbatim>\<open>TypeError\<close>). The model reads an optional sign and decimal
  digits, for \<^verbatim>\<open>float\<close> with an optional point; the further spellings Python accepts
  (surrounding blanks, underscores, exponents, \<^verbatim>\<open>inf\<close>, \<^verbatim>\<open>nan\<close>) do not occur in a file that
  \<open>save_records_csv\<close> wrote and are rejected here.\<close>

definition all_digits :: "string \<Rightarrow> bool" where
  "all_digits s \<longleftrightarrow> s \<noteq> [] \<and> list_all is_digit s"

definition py_int :: "string option \<Rightarrow> py_error + int" where
  "py_int v =
     (case v of
        None \<Rightarrow> Inl TypeError
      | Some s \<Rightarrow>
          (case s of
             [] \<Rightarrow> Inl ValueError
           | c # ds \<Rightarrow>
               if c = CHR ''-'' then
                 (if all_digits ds then Inr (- int (nat_of_digits ds)) else Inl ValueError)
               else if c = CHR ''+'' then
                 (if all_digits ds then Inr (int (nat_of_digits ds)) else Inl ValueError)
               else if all_digits s then Inr (int (nat_of_digits s)) else Inl ValueError))"

definition decimal_value :: "string \<Rightarrow> py_error + real" where
  "decimal_value s =
     (let ip = takeWhile (\<lambda>c. c \<noteq> CHR ''.'') s;
          fp = drop 1 (dropWhile (\<lambda>c. c \<noteq> CHR ''.'') s)
      in if list_all is_digit ip \<and> list_all is_digit fp \<and> (ip \<noteq> [] \<or> fp \<noteq> [])
         then Inr (real (nat_of_digits ip) + real (nat_of_digits fp) / 10 ^ length fp)
         else Inl ValueError)"

definition py_float :: "string option \<Rightarrow> py_error + real" where
  "py_float v =
     (case v of
        None \<Rightarrow> Inl TypeError
      | Some s \<Rightarrow>
          (case s of
             [] \<Rightarrow> Inl ValueError
           | c # ds \<Rightarrow>
               if c = CHR ''-'' then
                 (case decimal_value ds of Inl e \<Rightarrow> Inl e | Inr x \<Rightarrow> Inr (- x))
               else if c = CHR ''+'' then decimal_value ds
               else decimal_value s))"

subsection \<open>Writing CSV\<close>

text \<open>Carriage return, line feed, and the double quote is \<open>CHR 0x22\<close>.\<close>

definition CR :: char where "CR = CHR 0x0D"
definition LF :: char where "LF = CHR 0x0A"

text \<open>\<^verbatim>\<open>csv.writer\<close> with the default dialect quotes a field that contains the delimiter, the
  quote character or a character of the line terminator, doubles the quotes inside it,
  writes a lone empty field as two quotes, and ends the row with CR LF.\<close>

definition needs_quote :: "string \<Rightarrow> bool" where
  "needs_quote s \<longleftrightarrow> (\<exists>c\<in>set s. c = CHR '','' \<or> c = CHR 0x22 \<or> c = CR \<or> c = LF)"

definition csv_field :: "string \<Rightarrow> string" where
  "csv_field s =
     (if needs_quote s
      then CHR 0x22 # concat (map (\<lambda>c. if c = CHR 0x22 then [c, c] else [c]) s) @ [CHR 0x22]
      else s)"

fun join_fields :: "string list \<Rightarrow> string" where
  "join_fields [] = []"
| "join_fields [f] = f"
| "join_fields (f # g # fs) = f @ '','' @ join_fields (g # fs)"

definition csv_writerow :: "string list \<Rightarrow> string" where
  "csv_writerow flds =
     (if flds = [[]] then [CHR 0x22, CHR 0x22] else join_fields (map csv_field flds)) @ [CR, LF]"

text \<open>The header row and the row of a record (lines 119 to 151).\<close>

definition csv_header :: "string list" where
  "csv_header = [''plot_id'', ''row'', ''col'', ''blue_480'', ''green_560'', ''red_665'',
     ''red_edge_705'', ''red_edge_740'', ''nir_842'', ''nir2_865'', ''swir_1610'', ''swir_2190'']"

definition record_fields :: "spectral_record \<Rightarrow> string list" where
  "record_fields rec =
     [plot_id rec, str_int (row rec), str_int (col rec),
      fmt_4f (blue_480 rec), fmt_4f (green_560 rec), fmt_4f (red_665 rec),
      fmt_4f (red_edge_705 rec), fmt_4f (red_edge_740 rec), fmt_4f (nir_842 rec),
      fmt_4f (nir2_865 rec), fmt_4f (swir_1610 rec), fmt_4f (swir_2190 rec)]"

text \<open>The files: a path names the text it holds. The file is opened with
  \<^verbatim>\<open>newline=""\<close>, so the text is stored as written.\<close>

type_synonym filesystem = "string \<rightharpoonup> string"

text \<open>The loop \<^verbatim>\<open>for rec in records\<close> of \<open>save_records_csv\<close>, appending to the file \<open>f\<close>.\<close>

fun write_rows :: "string \<Rightarrow> spectral_record list \<Rightarrow> string" where
  "write_rows f [] = f"
| "write_rows f (rec # records) = write_rows (f @ csv_writerow (record_fields rec)) records"

text \<open>\<^verbatim>\<open>save_records_csv(records, path)\<close>\<close>

definition save_records_csv :: "filesystem \<Rightarrow> spectral_record list \<Rightarrow> string \<Rightarrow> filesystem" where
  "save_records_csv fs records path = fs(path \<mapsto> write_rows (csv_writerow csv_header) records)"

subsection \<open>Reading CSV\<close>

text \<open>\<open>load_records_csv\<close> opens the file with \<^verbatim>\<open>path.open()\<close>: text mode with universal
  newlines, where CR LF and a lone CR are both read as LF.\<close>

fun universal_newlines :: "string \<Rightarrow> string" where
  "universal_newlines [] = []"
| "universal_newlines (c # cs) =
     (if c = CR then
        (case cs of
           [] \<Rightarrow> [LF]
         | d # ds \<Rightarrow> if d = LF then LF # universal_newlines ds else LF # universal_newlines cs)
      else c # universal_newlines cs)"

text \<open>\<^verbatim>\<open>csv.reader\<close> with the default dialect, as the automaton of the library on the
  characters of the text (which holds no CR after the translation above). The arguments
  are the state, the field and the row being read, and the rest of the text; the result
  is the list of rows. A blank line is an empty row.\<close>

datatype csv_state = StartRecord | StartField | InField | InQuotedField | QuoteInQuotedField

fun csv_reader :: "csv_state \<Rightarrow> string \<Rightarrow> string list \<Rightarrow> string \<Rightarrow> string list list" where
  "csv_reader st fld cur [] = (if st = StartRecord then [] else [cur @ [fld]])"
| "csv_reader StartRecord fld cur (c # cs) =
     (if c = LF then [] # csv_reader StartRecord [] [] cs
      else if c = CHR 0x22 then csv_reader InQuotedField [] [] cs
      else if c = CHR '','' then csv_reader StartField [] [[]] cs
      else csv_reader InField [c] [] cs)"
| "csv_reader StartField fld cur (c # cs) =
     (if c = LF then (cur @ [[]]) # csv_reader StartRecord [] [] cs
      else if c = CHR 0x22 then csv_reader InQuotedField [] cur cs
      else if c = CHR '','' then csv_reader StartField [] (cur @ [[]]) cs
      else csv_reader InField [c] cur cs)"
| "csv_reader InField fld cur (c # cs) =
     (if c = LF then (cur @ [fld]) # csv_reader StartRecord [] [] cs
      else if c = CHR '','' then csv_reader StartField [] (cur @ [fld]) cs
      else csv_reader InField (fld @ [c]) cur cs)"
| "csv_reader InQuotedField fld cur (c # cs) =
     (if c = CHR 0x22 then csv_reader QuoteInQuotedField fld cur cs
      else csv_reader InQuotedField (fld @ [c]) cur cs)"
| "csv_reader QuoteInQuotedField fld cur (c # cs) =
     (if c = CHR 0x22 then csv_reader InQuotedField (fld @ [c]) cur cs
      else if c = CHR '','' then csv_reader StartField [] (cur @ [fld]) cs
      else if c = LF then (cur @ [fld]) # csv_reader StartRecord [] [] cs
      else csv_reader InField (fld @ [c]) cur cs)"

text \<open>One row of \<open>csv.DictReader\<close>: the header's names paired with the row's values; a
  name beyond the end of a short row gets \<open>None\<close>, and a repeated name keeps its last
  value.\<close>

definition dict_row :: "string list \<Rightarrow> string list \<Rightarrow> (string \<rightharpoonup> string option)" where
  "dict_row names vals =
     map_of (rev (zip names (map Some vals @ replicate (length names - length vals) None)))"

definition getitem :: "(string \<rightharpoonup> string option) \<Rightarrow> string \<Rightarrow> py_error + string option" where
  "getitem d k = (case d k of None \<Rightarrow> Inl KeyError | Some v \<Rightarrow> Inr v)"

text \<open>Sequencing of computations that may raise.\<close>

definition bind_err :: "py_error + 'a \<Rightarrow> ('a \<Rightarrow> py_error + 'b) \<Rightarrow> py_error + 'b" where
  "bind_err m f = (case m of Inl e \<Rightarrow> Inl e | Inr x \<Rightarrow> f x)"

text \<open>\<^verbatim>\<open>float(row[k])\<close>, \<^verbatim>\<open>int(row[k])\<close> and \<^verbatim>\<open>row[k]\<close> for a column \<open>k\<close>. A plot id missing
  from a short row would be \<open>None\<close> in Python, which the record type of the model cannot
  hold: the model reports \<^verbatim>\<open>TypeError\<close> there.\<close>

definition get_float :: "(string \<rightharpoonup> string option) \<Rightarrow> string \<Rightarrow> py_error + real" where
  "get_float d k = bind_err (getitem d k) py_float"

definition get_int :: "(string \<rightharpoonup> string option) \<Rightarrow> string \<Rightarrow> py_error + int" where
  "get_int d k = bind_err (getitem d k) py_int"

definition get_str :: "(string \<rightharpoonup> string option) \<Rightarrow> string \<Rightarrow> py_error + string" where
  "get_str d k =
     bind_err (getitem d k) (\<lambda>v. case v of None \<Rightarrow> Inl TypeError | Some s \<Rightarrow> Inr s)"

text \<open>The record built from one row (lines 160 to 173); the arguments are evaluated in
  order, and the first exception ends the call.\<close>

definition record_of_row :: "(string \<rightharpoonup> string option) \<Rightarrow> py_error + spectral_record" where
  "record_of_row d =
     bind_err (get_str d ''plot_id'') (\<lambda>v_plot_id.
     bind_err (get_int d ''row'') (\<lambda>v_row.
     bind_err (get_int d ''col'') (\<lambda>v_col.
     bind_err (get_float d ''blue_480'') (\<lambda>v_blue.
     bind_err (get_float d ''green_560'') (\<lambda>v_green.
     bind_err (get_float d ''red_665'') (\<lambda>v_red.
     bind_err (get_float d ''red_edge_705'') (\<lambda>v_re1.
     bind_err (get_float d ''red_edge_740'') (\<lambda>v_re2.
     bind_err (get_float d ''nir_842'') (\<lambda>v_nir.
     bind_err (get_float d ''nir2_865'') (\<lambda>v_nir2.
     bind_err (get_float d ''swir_1610'') (\<lambda>v_sw1.
     bind_err (get_float d ''swir_2190'') (\<lambda>v_sw2.
       Inr \<lparr> plot_id = v_plot_id, row = v_row, col = v_col,
             blue_480 = v_blue, green_560 = v_green, red_665 = v_red,
             red_edge_705 = v_re1, red_edge_740 = v_re2, nir_842 = v_nir,
             nir2_865 = v_nir2, swir_1610 = v_sw1, swir_2190 = v_sw2 \<rparr>))))))))))))"

text \<open>The loop \<^verbatim>\<open>for row in reader\<close>; \<open>DictReader\<close> skips empty rows.\<close>

fun read_rows :: "string list \<Rightarrow> string list list \<Rightarrow> spectral_record list \<Rightarrow> py_error + spectral_record list" where
  "read_rows names [] records = Inr records"
| "read_rows names (vals # rest) records =
     (if vals = [] then read_rows names rest records
      else case record_of_row (dict_row names vals) of
             Inl e \<Rightarrow> Inl e
           | Inr rec \<Rightarrow> read_rows names rest (records @ [rec]))"

text \<open>\<^verbatim>\<open>load_records_csv(path)\<close>: the first row of the file names the columns.\<close>

definition load_records_csv :: "filesystem \<Rightarrow> string \<Rightarrow> py_error + spectral_record list" where
  "load_records_csv fs path =
     (case fs path of
        None \<Rightarrow> Inl FileNotFoundError
      | Some f \<Rightarrow>
          (case csv_reader StartRecord [] [] (universal_newlines f) of
             [] \<Rightarrow> Inr []
           | names # rest \<Rightarrow> read_rows names rest []))"

text \<open>A record whose plot id holds a carriage return.\<close>

definition cr_record :: spectral_record where
  "cr_record = example_record (''A'' @ [CR] @ ''B'') 0 0 0.2 0.6"

text \<open>A number rounded to four decimal places, and a record with its nine bands
  rounded: what a saved value is expected to come back as.\<close>

definition round4 :: "real \<Rightarrow> real" where
  "round4 x = real_of_int (round_half_even (x * 10000)) / 10000"

definition round_record :: "spectral_record \<Rightarrow> spectral_record" where
  "round_record rec =
     rec\<lparr> blue_480 := round4 (blue_480 rec), green_560 := round4 (green_560 rec),
          red_665 := round4 (red_665 rec), red_edge_705 := round4 (red_edge_705 rec),
          red_edge_740 := round4 (red_edge_740 rec), nir_842 := round4 (nir_842 rec),
          nir2_865 := round4 (nir2_865 rec), swir_1610 := round4 (swir_1610 rec),
          swir_2190 := round4 (swir_2190 rec) \<rparr>"

text \<open>The inside of a quoted field: every quote doubled.\<close>

definition quote_escape :: "string \<Rightarrow> string" where
  "quote_escape s = concat (map (\<lambda>c. if c = CHR 0x22 then [c, c] else [c]) s)"

section \<open>Basic facts about the primitives and the loops\<close>

lemma py_range_iff: "i \<in> set (py_range n) \<longleftrightarrow> 0 \<le> i \<and> i < n"
  by (auto simp: py_range_def image_iff intro: bexI [of _ "nat i"])

lemma length_py_range: "length (py_range n) = nat n"
  by (simp add: py_range_def)

lemma py_index_in_range:
  "0 \<le> i \<Longrightarrow> i < int (length xs) \<Longrightarrow> py_index xs i = Inr (xs ! nat i)"
  by (simp add: py_index_def)

lemma stress_loop_two:
  "s1 \<noteq> 0 \<Longrightarrow> s2 \<noteq> 0 \<Longrightarrow>
   stress_loop [(r1, c1, s1), (r2, c2, s2)] r c acc =
     Inr (acc + exp (- ((real_of_int r - r1)\<^sup>2 + (real_of_int c - c1)\<^sup>2) / (2 * s1))
              + exp (- ((real_of_int r - r2)\<^sup>2 + (real_of_int c - c2)\<^sup>2) / (2 * s2)))"
  by (simp add: py_div_def Let_def del: minus_add_distrib)

lemma cell_stress_centers:
  "rows \<noteq> 0 \<Longrightarrow> cell_stress (stress_centers rows cols) r c = Inr (stress_value rows cols r c)"
  unfolding cell_stress_def stress_centers_def stress_value_def
  by (subst stress_loop_two) simp_all

lemma gen_cell_ok:
  assumes "rows \<noteq> 0" "cols \<noteq> 0" "0 \<le> r" "r < int (length rg)" "0 \<le> c" "c < int (length cb)"
  shows "\<exists>rec s'. gen_cell R rows cols (stress_centers rows cols) rg cb r c s = Inr (rec, s')
           \<and> synthesized R r c rec"
  using assms
  unfolding gen_cell_def synthesized_def
  apply (simp add: cell_stress_centers py_div_def py_index_in_range Let_def split_beta)
  apply (intro exI)
  apply (rule refl)
  done

lemma gen_row_ok:
  assumes "0 \<le> r" "r < rows" "length rg = nat rows" "length cb = nat cols"
    and "\<forall>c\<in>set cs. 0 \<le> c \<and> c < cols"
  shows "\<exists>new s'. gen_row R rows cols (stress_centers rows cols) rg cb r cs s records
             = Inr (records @ new, s')
           \<and> list_all2 (synthesized R r) cs new"
  using assms(5)
proof (induction cs arbitrary: s records)
  case Nil
  then show ?case by simp
next
  case (Cons c cs)
  from Cons.prems have c: "0 \<le> c" "c < cols" by simp_all
  with assms have "rows \<noteq> 0" "cols \<noteq> 0" "r < int (length rg)" "c < int (length cb)"
    by auto
  from gen_cell_ok [OF this(1,2) assms(1) this(3) c(1) this(4), of R s]
  obtain rec s1 where cell: "gen_cell R rows cols (stress_centers rows cols) rg cb r c s = Inr (rec, s1)"
    and syn: "synthesized R r c rec" by blast
  from Cons.prems have "\<forall>c\<in>set cs. 0 \<le> c \<and> c < cols" by simp
  from Cons.IH [OF this, of s1 "records @ [rec]"]
  obtain new s' where
    "gen_row R rows cols (stress_centers rows cols) rg cb r cs s1 (records @ [rec])
       = Inr ((records @ [rec]) @ new, s')"
    and "list_all2 (synthesized R r) cs new" by blast
  with cell syn show ?case
    by (intro exI [of _ "rec # new"] exI [of _ s']) simp
qed

lemma gen_rows_ok:
  assumes "length rg = nat rows" "length cb = nat cols"
    and "\<forall>r\<in>set rs. 0 \<le> r \<and> r < rows"
  shows "\<exists>new s'. gen_rows R rows cols (stress_centers rows cols) rg cb rs s records
             = Inr (records @ new, s')
           \<and> list_all2 (\<lambda>(r, c). synthesized R r c) (List.product rs (py_range cols)) new"
  using assms(3)
proof (induction rs arbitrary: s records)
  case Nil
  then show ?case by simp
next
  case (Cons r rs)
  from Cons.prems have r: "0 \<le> r" "r < rows" by simp_all
  have "\<forall>c\<in>set (py_range cols). 0 \<le> c \<and> c < cols"
    by (simp add: py_range_iff)
  from gen_row_ok [OF r assms(1,2) this, of R s records]
  obtain new1 s1 where row1:
    "gen_row R rows cols (stress_centers rows cols) rg cb r (py_range cols) s records
       = Inr (records @ new1, s1)"
    and syn1: "list_all2 (synthesized R r) (py_range cols) new1" by blast
  from Cons.prems have "\<forall>r\<in>set rs. 0 \<le> r \<and> r < rows" by simp
  from Cons.IH [OF this, of s1 "records @ new1"]
  obtain new2 s' where rows2:
    "gen_rows R rows cols (stress_centers rows cols) rg cb rs s1 (records @ new1)
       = Inr ((records @ new1) @ new2, s')"
    and syn2: "list_all2 (\<lambda>(r, c). synthesized R r c) (List.product rs (py_range cols)) new2"
    by blast
  from syn1 have "list_all2 (\<lambda>(r, c). synthesized R r c) (map (Pair r) (py_range cols)) new1"
    by (simp add: list_all2_map1)
  with syn2 have "list_all2 (\<lambda>(r, c). synthesized R r c)
      (List.product (r # rs) (py_range cols)) (new1 @ new2)"
    by (simp add: list_all2_appendI)
  with row1 rows2 show ?case
    by (intro exI [of _ "new1 @ new2"] exI [of _ s']) simp
qed

lemma length_draw_col_bias: "length (fst (draw_col_bias R cs s)) = length cs"
  by (induction cs arbitrary: s) (simp_all add: split_beta Let_def)

lemma generate_ok:
  "\<exists>records. generate_spectral_grid R rows cols seed = Inr records
     \<and> list_all2 (\<lambda>(r, c). synthesized R r c)
          (List.product (py_range rows) (py_range cols)) records"
proof -
  obtain cb s1 where cb: "draw_col_bias R (py_range cols) (rng_seed R seed) = (cb, s1)"
    by (cases "draw_col_bias R (py_range cols) (rng_seed R seed)")
  have lcb: "length cb = nat cols"
    using length_draw_col_bias [of R "py_range cols" "rng_seed R seed"] cb
    by (simp add: length_py_range)
  let ?rg = "map (\<lambda>r. 1 + 0.04 * sin (real_of_int r / 11)) (py_range rows)"
  have lrg: "length ?rg = nat rows" by (simp add: length_py_range)
  have "\<forall>r\<in>set (py_range rows). 0 \<le> r \<and> r < rows" by (simp add: py_range_iff)
  from gen_rows_ok [OF lrg lcb this, of R s1 "[]"]
  obtain new s' where
    "gen_rows R rows cols (stress_centers rows cols) ?rg cb (py_range rows) s1 [] = Inr (new, s')"
    and "list_all2 (\<lambda>(r, c). synthesized R r c) (List.product (py_range rows) (py_range cols)) new"
    by auto
  with cb show ?thesis
    by (simp add: generate_spectral_grid_def Let_def)
qed

lemma synthesized_key: "synthesized R r c rec \<Longrightarrow> row rec = r \<and> col rec = c \<and> plot_id rec = make_plot_id r c"
  by (auto simp: synthesized_def make_record_def)

lemma list_all2_keys:
  "list_all2 (\<lambda>(r, c). synthesized R r c) ks records \<Longrightarrow> map cell_key records = ks"
  by (induction ks records rule: list_all2_induct) (auto simp: cell_key_def synthesized_key)


lemma py_range_2: "py_range 2 = [0, 1]"
  by (simp add: py_range_def upt_rec)

lemma py_range_1: "py_range 1 = [0]"
  by (simp add: py_range_def)




lemma digit_char_cases:
  assumes "d < 10"
  shows "d = 0 \<or> d = 1 \<or> d = 2 \<or> d = 3 \<or> d = 4 \<or> d = 5 \<or> d = 6 \<or> d = 7 \<or> d = 8 \<or> d = (9::nat)"
  using assms by arith

lemma digit_val_digit_char: "d < 10 \<Longrightarrow> digit_val (digit_char d) = d"
  using digit_char_cases [of d] by (auto simp: digit_val_def digit_char_def)

lemma is_digit_digit_char: "d < 10 \<Longrightarrow> is_digit (digit_char d)"
  using digit_char_cases [of d] by (auto simp: is_digit_def digit_char_def)

lemma nat_of_digits_snoc: "nat_of_digits (s @ [ch]) = 10 * nat_of_digits s + digit_val ch"
  by (simp add: nat_of_digits_def)

lemma nat_of_digits_str_nat: "nat_of_digits (str_nat n) = n"
proof (induction n rule: str_nat.induct)
  case (1 n)
  show ?case
  proof (cases "n < 10")
    case True
    then show ?thesis
      by (subst str_nat.simps) (simp add: nat_of_digits_def digit_val_digit_char)
  next
    case False
    with 1 have "nat_of_digits (str_nat (n div 10)) = n div 10" by simp
    with False show ?thesis
      by (subst str_nat.simps) (simp add: nat_of_digits_snoc digit_val_digit_char)
  qed
qed

lemma digits_str_nat: "\<forall>ch\<in>set (str_nat n). is_digit ch"
proof (induction n rule: str_nat.induct)
  case (1 n)
  show ?case
  proof (cases "n < 10")
    case True
    then show ?thesis
      by (subst str_nat.simps) (simp add: is_digit_digit_char)
  next
    case False
    with 1 have "\<forall>ch\<in>set (str_nat (n div 10)). is_digit ch" by simp
    with False show ?thesis
      by (subst str_nat.simps) (simp add: is_digit_digit_char)
  qed
qed

lemma nat_of_digits_zeros: "nat_of_digits (replicate k CHR ''0'' @ s) = nat_of_digits s"
proof -
  have "foldl (\<lambda>acc ch. 10 * acc + digit_val ch) 0 (replicate k CHR ''0'') = 0"
    by (induction k) (simp_all add: digit_val_def)
  then show ?thesis by (simp add: nat_of_digits_def)
qed

lemma nat_of_digits_zfill: "nat_of_digits (zfill w (str_nat n)) = n"
  by (simp add: zfill_def nat_of_digits_zeros nat_of_digits_str_nat)

lemma is_digit_zero: "is_digit CHR ''0''"
  by (simp add: is_digit_def)

lemma not_is_digit_C: "\<not> is_digit CHR ''C''"
  by (simp add: is_digit_def)

lemma digits_zfill: "\<forall>ch\<in>set (zfill w (str_nat n)). is_digit ch"
  using digits_str_nat [of n] is_digit_zero by (auto simp: zfill_def)

lemma fmt_03d_nonneg: "0 \<le> i \<Longrightarrow> fmt_03d i = zfill 3 (str_nat (nat i))"
  by (simp add: fmt_03d_def)

lemma fmt_03d_inj:
  assumes "0 \<le> i" "0 \<le> j" "fmt_03d i = fmt_03d j"
  shows "i = j"
proof -
  from assms have "nat_of_digits (zfill 3 (str_nat (nat i))) = nat_of_digits (zfill 3 (str_nat (nat j)))"
    by (simp add: fmt_03d_nonneg)
  then have "nat i = nat j" by (simp add: nat_of_digits_zfill)
  with assms show ?thesis by simp
qed

lemma fmt_03d_no_C: "0 \<le> i \<Longrightarrow> CHR ''C'' \<notin> set (fmt_03d i)"
  using digits_zfill [of 3 "nat i"] not_is_digit_C by (auto simp: fmt_03d_nonneg)

lemma takeWhile_until_sep: "x \<notin> set a \<Longrightarrow> takeWhile (\<lambda>y. y \<noteq> x) (a @ x # b) = a"
  by (induction a) auto

lemma split_at_sep:
  assumes "x \<notin> set a" "x \<notin> set a'" "a @ x # b = a' @ x # b'"
  shows "a = a' \<and> b = b'"
proof -
  have "takeWhile (\<lambda>y. y \<noteq> x) (a @ x # b) = a" "takeWhile (\<lambda>y. y \<noteq> x) (a' @ x # b') = a'"
    using assms(1,2) by (simp_all add: takeWhile_until_sep)
  with assms(3) have "a = a'" by simp
  with assms(3) show ?thesis by simp
qed

lemma make_plot_id_inj:
  assumes "0 \<le> r" "0 \<le> c" "0 \<le> r'" "0 \<le> c'" "make_plot_id r c = make_plot_id r' c'"
  shows "r = r' \<and> c = c'"
proof -
  from assms(5) have "fmt_03d (r + 1) @ CHR ''C'' # fmt_03d (c + 1)
      = fmt_03d (r' + 1) @ CHR ''C'' # fmt_03d (c' + 1)"
    by (simp add: make_plot_id_def)
  moreover have "CHR ''C'' \<notin> set (fmt_03d (r + 1))" "CHR ''C'' \<notin> set (fmt_03d (r' + 1))"
    using assms(1,3) by (simp_all add: fmt_03d_no_C)
  ultimately have "fmt_03d (r + 1) = fmt_03d (r' + 1) \<and> fmt_03d (c + 1) = fmt_03d (c' + 1)"
    by (intro split_at_sep)
  with assms(1-4) show ?thesis
    using fmt_03d_inj [of "r + 1" "r' + 1"] fmt_03d_inj [of "c + 1" "c' + 1"] by simp
qed

lemma generate_synthesized:
  assumes "generate_spectral_grid R rows cols seed = Inr records" "rec \<in> set records"
  shows "\<exists>r c. 0 \<le> r \<and> r < rows \<and> 0 \<le> c \<and> c < cols \<and> synthesized R r c rec"
proof -
  from generate_ok [of R rows cols seed] assms(1)
  have "list_all2 (\<lambda>(r, c). synthesized R r c)
          (List.product (py_range rows) (py_range cols)) records" by simp
  then have all: "length (List.product (py_range rows) (py_range cols)) = length records"
    "\<And>i. i < length records \<Longrightarrow>
       (\<lambda>(r, c). synthesized R r c) (List.product (py_range rows) (py_range cols) ! i) (records ! i)"
    by (simp_all add: list_all2_conv_all_nth)
  from assms(2) obtain i where i: "i < length records" "rec = records ! i"
    by (auto simp: in_set_conv_nth)
  define k where "k = List.product (py_range rows) (py_range cols) ! i"
  from i all(1) have mem: "k \<in> set (List.product (py_range rows) (py_range cols))"
    unfolding k_def by (intro nth_mem) simp
  from all(2) [OF i(1)] i(2) have syn: "(\<lambda>(r, c). synthesized R r c) k rec"
    by (simp add: k_def)
  obtain r c where k: "k = (r, c)" by (cases k)
  from mem k have "r \<in> set (py_range rows)" "c \<in> set (py_range cols)" by simp_all
  then have "0 \<le> r \<and> r < rows \<and> 0 \<le> c \<and> c < cols" by (simp add: py_range_iff)
  moreover from syn k have "synthesized R r c rec" by simp
  ultimately have "0 \<le> r \<and> r < rows \<and> 0 \<le> c \<and> c < cols \<and> synthesized R r c rec" by simp
  then show ?thesis by (intro exI)
qed

lemma str_nat_small: "n < 10 \<Longrightarrow> str_nat n = [digit_char n]"
  by (subst str_nat.simps) simp

lemma str_nat_large: "\<not> n < 10 \<Longrightarrow> str_nat n = str_nat (n div 10) @ [digit_char (n mod 10)]"
  by (subst str_nat.simps) simp

section \<open>The grid: coverage, order and dimensions\<close>






section \<open>The stress field\<close>




section \<open>Plot identifiers\<close>

text \<open>
  Claim C6. For every record produced by \<open>generate_spectral_grid\<close>, the \<open>plot_id\<close> is
  \<open>R\<close>, the row plus one formatted with \<open>03d\<close>, \<open>C\<close>, the column plus one formatted with
  \<open>03d\<close>; and two records at different \<open>(row, col)\<close> positions have different plot ids.
\<close>

theorem plot_id_format_unique:
  assumes "generate_spectral_grid R rows cols seed = Inr records"
  shows "(\<forall>rec\<in>set records.
            plot_id rec = ''R'' @ fmt_03d (row rec + 1) @ ''C'' @ fmt_03d (col rec + 1))
     \<and> (\<forall>a\<in>set records. \<forall>b\<in>set records.
            (row a, col a) \<noteq> (row b, col b) \<longrightarrow> plot_id a \<noteq> plot_id b)"
proof (intro conjI ballI impI)
  fix rec assume "rec \<in> set records"
  from generate_synthesized [OF assms this]
  show "plot_id rec = ''R'' @ fmt_03d (row rec + 1) @ ''C'' @ fmt_03d (col rec + 1)"
    by (auto dest!: synthesized_key simp: make_plot_id_def)
next
  fix a b assume a: "a \<in> set records" and b: "b \<in> set records"
    and ne: "(row a, col a) \<noteq> (row b, col b)"
  from generate_synthesized [OF assms a] obtain r c where
    rc: "0 \<le> r" "0 \<le> c" "row a = r" "col a = c" "plot_id a = make_plot_id r c"
    by (auto dest!: synthesized_key)
  from generate_synthesized [OF assms b] obtain r' c' where
    rc': "0 \<le> r'" "0 \<le> c'" "row b = r'" "col b = c'" "plot_id b = make_plot_id r' c'"
    by (auto dest!: synthesized_key)
  show "plot_id a \<noteq> plot_id b"
  proof
    assume "plot_id a = plot_id b"
    with rc rc' have "r = r' \<and> c = c'"
      by (intro make_plot_id_inj) simp_all
    with rc rc' ne show False by simp
  qed
qed

theorem plot_id_format_unique_witness:
  "\<exists>records. generate_spectral_grid counter_rng 2 2 42 = Inr records
     \<and> map plot_id records = [''R001C001'', ''R001C002'', ''R002C001'', ''R002C002'']"
proof -
  from generate_ok [of counter_rng 2 2 42] obtain records where
    gen: "generate_spectral_grid counter_rng 2 2 42 = Inr records"
    and syn: "list_all2 (\<lambda>(r, c). synthesized counter_rng r c)
          (List.product (py_range 2) (py_range 2)) records" by blast
  from syn have keys: "map cell_key records = [(0, 0), (0, 1), (1, 0), (1, 1)]"
    by (simp add: list_all2_keys py_range_2)
  from plot_id_format_unique [OF gen]
  have "\<forall>rec\<in>set records.
      plot_id rec = ''R'' @ fmt_03d (row rec + 1) @ ''C'' @ fmt_03d (col rec + 1)" by blast
  then have "map plot_id records
      = map ((\<lambda>(r, c). ''R'' @ fmt_03d (r + 1) @ ''C'' @ fmt_03d (c + 1)) \<circ> cell_key) records"
    by (simp add: cell_key_def)
  also have "\<dots> = map (\<lambda>(r, c). ''R'' @ fmt_03d (r + 1) @ ''C'' @ fmt_03d (c + 1))
      (map cell_key records)" by simp
  also have "\<dots> = [''R001C001'', ''R001C002'', ''R002C001'', ''R002C002'']"
    unfolding keys
    by (simp add: fmt_03d_def zfill_def str_nat_small digit_char_def numeral_2_eq_2)
  finally have ids: "map plot_id records = [''R001C001'', ''R001C002'', ''R002C001'', ''R002C002'']" .
  show ?thesis
    by (rule exI [of _ records], rule conjI [OF gen ids])
qed

section \<open>Band values\<close>

lemma clamp_bounds: "lo \<le> hi \<Longrightarrow> lo \<le> clamp v lo hi \<and> clamp v lo hi \<le> hi"
  by (simp add: clamp_def)

lemma clamp_lower: "lo \<le> hi \<Longrightarrow> lo \<le> clamp v lo hi"
  by (simp add: clamp_def)

lemma clamp_upper: "lo \<le> hi \<Longrightarrow> clamp v lo hi \<le> hi"
  by (simp add: clamp_def)

lemma synth_bands_within: "within_clamp_intervals (fst (synth_bands R stress fertility illumination s))"
  unfolding synth_bands_def within_clamp_intervals_def
  apply (simp only: Let_def split_beta fst_conv bands.select_convs)
  apply (intro conjI)
  apply (rule clamp_lower clamp_upper, simp)+
  done

lemma bands_of_make_record: "bands_of (make_record r c b) = b"
  by (simp add: bands_of_def make_record_def)

lemma thin_cloud_cases:
  assumes "uniform_in_bounds R"
  shows "if fst (rng_random R s) < 0.02
         then \<exists>factor_vis factor_nir.
                1.05 \<le> factor_vis \<and> factor_vis \<le> 1.12 \<and> 0.90 \<le> factor_nir \<and> factor_nir \<le> 0.96
                \<and> fst (thin_cloud R b s) = cloud_scale factor_vis factor_nir b
         else fst (thin_cloud R b s) = b"
proof (cases "fst (rng_random R s) < 0.02")
  case True
  define s1 where "s1 = snd (rng_random R s)"
  define s2 where "s2 = snd (rng_uniform R 1.05 1.12 s1)"
  have u: "a \<le> fst (rng_uniform R a b t) \<and> fst (rng_uniform R a b t) \<le> b" if "a \<le> b" for a b t
    using assms that unfolding uniform_in_bounds_def by blast
  have "1.05 \<le> fst (rng_uniform R 1.05 1.12 s1) \<and> fst (rng_uniform R 1.05 1.12 s1) \<le> 1.12"
    by (rule u) simp
  moreover have "0.90 \<le> fst (rng_uniform R 0.90 0.96 s2) \<and> fst (rng_uniform R 0.90 0.96 s2) \<le> 0.96"
    by (rule u) simp
  moreover have "fst (thin_cloud R b s)
      = cloud_scale (fst (rng_uniform R 1.05 1.12 s1)) (fst (rng_uniform R 0.90 0.96 s2)) b"
    using True by (simp add: thin_cloud_def split_beta Let_def s1_def s2_def)
  ultimately have "\<exists>factor_vis factor_nir.
                1.05 \<le> factor_vis \<and> factor_vis \<le> 1.12 \<and> 0.90 \<le> factor_nir \<and> factor_nir \<le> 0.96
                \<and> fst (thin_cloud R b s) = cloud_scale factor_vis factor_nir b"
    by blast
  with True show ?thesis by (simp only: if_True)
next
  case False
  then show ?thesis by (simp add: thin_cloud_def split_beta)
qed

lemma uniform_in_bounds_counter: "uniform_in_bounds counter_rng"
proof -
  have "a \<le> a + (b - a) * counter_unit s \<and> a + (b - a) * counter_unit s \<le> b"
    if "a \<le> b" for a b :: real and s
  proof -
    have u: "0 \<le> counter_unit s" "counter_unit s \<le> 1"
      by (simp_all add: counter_unit_def)
    from that u(1) have "0 \<le> (b - a) * counter_unit s" by simp
    moreover from that u(2) have "(b - a) * counter_unit s \<le> (b - a) * 1"
      by (intro mult_left_mono) simp_all
    ultimately show ?thesis by simp
  qed
  then show ?thesis
    by (simp add: uniform_in_bounds_def counter_rng_def)
qed

lemma generate_single_cell: "\<exists>rec. generate_spectral_grid R 1 1 seed = Inr [rec]"
proof -
  from generate_ok [of R 1 1 seed] obtain records where
    gen: "generate_spectral_grid R 1 1 seed = Inr records"
    and syn: "list_all2 (\<lambda>(r, c). synthesized R r c) (List.product (py_range 1) (py_range 1)) records"
    by blast
  from syn have "length records = 1"
    by (simp add: py_range_1 list_all2_Cons1)  (auto)
  then obtain rec where "records = [rec]"
    by (cases records) simp_all
  with gen show ?thesis by simp
qed

lemma synthesized_bands:
  assumes "uniform_in_bounds R" "synthesized R r c rec"
  shows "\<exists>stress fertility illumination s.
     let (base, s2) = synth_bands R stress fertility illumination s in
       within_clamp_intervals base \<and>
       (if fst (rng_random R s2) < 0.02
        then \<exists>factor_vis factor_nir.
               1.05 \<le> factor_vis \<and> factor_vis \<le> 1.12 \<and> 0.90 \<le> factor_nir \<and> factor_nir \<le> 0.96
               \<and> bands_of rec = cloud_scale factor_vis factor_nir base
        else bands_of rec = base)"
proof -
  from assms(2) obtain stress fertility illumination s where
    rec: "rec = make_record r c
          (fst (thin_cloud R (fst (synth_bands R stress fertility illumination s))
                  (snd (synth_bands R stress fertility illumination s))))"
    unfolding synthesized_def by blast
  define base where "base = fst (synth_bands R stress fertility illumination s)"
  define s2 where "s2 = snd (synth_bands R stress fertility illumination s)"
  have b: "bands_of rec = fst (thin_cloud R base s2)"
    by (simp add: rec bands_of_make_record base_def s2_def)
  have w: "within_clamp_intervals base"
    unfolding base_def by (rule synth_bands_within)
  have "within_clamp_intervals base \<and>
       (if fst (rng_random R s2) < 0.02
        then \<exists>factor_vis factor_nir.
               1.05 \<le> factor_vis \<and> factor_vis \<le> 1.12 \<and> 0.90 \<le> factor_nir \<and> factor_nir \<le> 0.96
               \<and> bands_of rec = cloud_scale factor_vis factor_nir base
        else bands_of rec = base)"
    using w thin_cloud_cases [OF assms(1), of s2 base] unfolding b by simp
  then have "let (base, s2) = synth_bands R stress fertility illumination s in
       within_clamp_intervals base \<and>
       (if fst (rng_random R s2) < 0.02
        then \<exists>factor_vis factor_nir.
               1.05 \<le> factor_vis \<and> factor_vis \<le> 1.12 \<and> 0.90 \<le> factor_nir \<and> factor_nir \<le> 0.96
               \<and> bands_of rec = cloud_scale factor_vis factor_nir base
        else bands_of rec = base)"
    unfolding base_def s2_def split_beta Let_def .
  then show ?thesis
    by (intro exI)
qed



lemma ndvi_positive:
  assumes "0 < red" "0 < nir"
  shows "\<exists>v. ndvi red nir = Num v \<and> - 1 < v \<and> v < 1"
proof -
  from assms have d: "0 < nir + red" by simp
  then have "ndvi red nir = Num ((nir - red) / (nir + red))"
    by (simp add: ndvi_def Let_def)
  moreover from d assms have "- 1 < (nir - red) / (nir + red)"
    by (simp add: pos_less_divide_eq)
  moreover from d assms have "(nir - red) / (nir + red) < 1"
    by (simp add: pos_divide_less_eq)
  ultimately show ?thesis by blast
qed

text \<open>
  Claim C10. Take a generator whose \<open>uniform(a, b)\<close> stays between \<open>a\<close> and \<open>b\<close>. In every
  record of the grid, with or without the cloud scaling, \<open>red_665 \<ge> 0.01\<close> and
  \<open>nir_842 \<ge> 0.009\<close>; so their sum is not zero, the NDVI of the record is a number (not
  \<^verbatim>\<open>nan\<close>), and it lies strictly between \<open>-1\<close> and \<open>1\<close>.
\<close>

theorem generated_red_nir_positive:
  assumes "uniform_in_bounds R"
    and "generate_spectral_grid R rows cols seed = Inr records"
    and "rec \<in> set records"
  shows "0.01 \<le> red_665 rec \<and> 0.009 \<le> nir_842 rec
     \<and> (\<exists>v. ndvi (red_665 rec) (nir_842 rec) = Num v \<and> - 1 < v \<and> v < 1)"
proof -
  from generate_synthesized [OF assms(2,3)] obtain r c where "synthesized R r c rec"
    by blast
  from synthesized_bands [OF assms(1) this] obtain base s2 where
    w: "within_clamp_intervals base"
    and cl: "if fst (rng_random R s2) < 0.02
        then \<exists>factor_vis factor_nir.
               1.05 \<le> factor_vis \<and> factor_vis \<le> 1.12 \<and> 0.90 \<le> factor_nir \<and> factor_nir \<le> 0.96
               \<and> bands_of rec = cloud_scale factor_vis factor_nir base
        else bands_of rec = base"
    by (auto simp only: Let_def split_beta)
  from w have base: "0.01 \<le> b_red base" "0.01 \<le> b_nir base"
    by (simp_all add: within_clamp_intervals_def)
  have sel: "red_665 rec = b_red (bands_of rec)" "nir_842 rec = b_nir (bands_of rec)"
    by (simp_all add: bands_of_def)
  have bounds: "0.01 \<le> red_665 rec \<and> 0.009 \<le> nir_842 rec"
  proof (cases "fst (rng_random R s2) < 0.02")
    case False
    with cl have "bands_of rec = base" by simp
    with base show ?thesis by (simp add: sel)
  next
    case True
    with cl obtain fv fn where f: "1.05 \<le> fv" "0.90 \<le> fn"
      and sc: "bands_of rec = cloud_scale fv fn base" by auto
    have "0.01 * 1 \<le> b_red base * fv"
      using base(1) f(1) by (intro mult_mono) simp_all
    moreover have "0.01 * 0.90 \<le> b_nir base * fn"
      using base(2) f(2) by (intro mult_mono) simp_all
    ultimately show ?thesis
      by (simp add: sel sc cloud_scale_def)
  qed
  then have "0 < red_665 rec" "0 < nir_842 rec" by simp_all
  from ndvi_positive [OF this] bounds show ?thesis by simp
qed

theorem generated_red_nir_positive_witness:
  "uniform_in_bounds counter_rng \<and>
   (\<exists>rec. generate_spectral_grid counter_rng 1 1 0 = Inr [rec] \<and> rec \<in> set [rec]
      \<and> 0.01 \<le> red_665 rec \<and> 0.009 \<le> nir_842 rec
      \<and> (\<exists>v. ndvi (red_665 rec) (nir_842 rec) = Num v \<and> - 1 < v \<and> v < 1))"
proof -
  from generate_single_cell [of counter_rng 0] obtain rec where
    gen: "generate_spectral_grid counter_rng 1 1 0 = Inr [rec]" by blast
  have mem: "rec \<in> set [rec]" by simp
  from generated_red_nir_positive [OF uniform_in_bounds_counter gen mem]
    gen mem uniform_in_bounds_counter
  show ?thesis by blast
qed

section \<open>Determinism\<close>

lemma draw_then_rel:
  assumes "rel_prod (=) rel p q"
    and "\<And>x s t. rel s t \<Longrightarrow> rel_prod (=) rel (f x s) (g x t)"
  shows "rel_prod (=) rel (case p of (x, s) \<Rightarrow> f x s) (case q of (x, t) \<Rightarrow> g x t)"
  using assms by (cases p; cases q) simp

lemma rng_equiv_gauss:
  "rng_equiv R1 R2 rel \<Longrightarrow> rel s t \<Longrightarrow>
     rel_prod (=) rel (rng_gauss R1 mu sigma s) (rng_gauss R2 mu sigma t)"
  unfolding rng_equiv_def by (simp add: rel_prod_sel)

lemma rng_equiv_uniform:
  "rng_equiv R1 R2 rel \<Longrightarrow> rel s t \<Longrightarrow>
     rel_prod (=) rel (rng_uniform R1 a b s) (rng_uniform R2 a b t)"
  unfolding rng_equiv_def by (simp add: rel_prod_sel)

lemma rng_equiv_random:
  "rng_equiv R1 R2 rel \<Longrightarrow> rel s t \<Longrightarrow>
     rel_prod (=) rel (rng_random R1 s) (rng_random R2 t)"
  unfolding rng_equiv_def by (simp add: rel_prod_sel)

lemma synth_bands_equiv:
  assumes "rng_equiv R1 R2 rel" "rel s t"
  shows "rel_prod (=) rel (synth_bands R1 stress fertility illumination s)
           (synth_bands R2 stress fertility illumination t)"
  unfolding synth_bands_def
  apply (simp only: Let_def)
  apply (intro draw_then_rel rng_equiv_gauss [OF assms(1)] rng_equiv_uniform [OF assms(1)])
  apply (simp_all add: assms(2))
  done

lemma if_then_rel:
  assumes "c \<Longrightarrow> rel_prod (=) rel a a'" "\<not> c \<Longrightarrow> rel_prod (=) rel b b'"
  shows "rel_prod (=) rel (if c then a else b) (if c then a' else b')"
  using assms by simp

lemma thin_cloud_equiv:
  assumes "rng_equiv R1 R2 rel" "rel s t"
  shows "rel_prod (=) rel (thin_cloud R1 b s) (thin_cloud R2 b t)"
  unfolding thin_cloud_def
  apply (simp only: Let_def)
  apply (intro draw_then_rel if_then_rel rng_equiv_random [OF assms(1)]
      rng_equiv_uniform [OF assms(1)])
  apply (simp_all add: assms(2))
  done


lemma draw_then_rel_sum:
  assumes "rel_prod (=) rel p q"
    and "\<And>x s t. rel s t \<Longrightarrow> rel_sum (=) (rel_prod (=) rel) (f x s) (g x t)"
  shows "rel_sum (=) (rel_prod (=) rel) (case p of (x, s) \<Rightarrow> f x s) (case q of (x, t) \<Rightarrow> g x t)"
  using assms by (cases p; cases q) simp

lemma case_error_rel:
  assumes "\<And>v. rel_sum (=) Q (f v) (g v)"
  shows "rel_sum (=) Q (case x of Inl e \<Rightarrow> Inl e | Inr v \<Rightarrow> f v)
           (case x of Inl e \<Rightarrow> Inl e | Inr v \<Rightarrow> g v)"
  using assms by (cases x) simp_all

lemma bind_sum_rel:
  assumes "rel_sum (=) (rel_prod (=) rel) p q"
    and "\<And>x s t. rel s t \<Longrightarrow> rel_sum (=) (rel_prod (=) rel) (f x s) (g x t)"
  shows "rel_sum (=) (rel_prod (=) rel)
           (case p of Inl e \<Rightarrow> Inl e | Inr (x, s) \<Rightarrow> f x s)
           (case q of Inl e \<Rightarrow> Inl e | Inr (x, t) \<Rightarrow> g x t)"
  using assms by (cases p; cases q) auto

lemma gen_cell_equiv:
  assumes "rng_equiv R1 R2 rel" "rel s t"
  shows "rel_sum (=) (rel_prod (=) rel)
           (gen_cell R1 rows cols centers rg cb r c s)
           (gen_cell R2 rows cols centers rg cb r c t)"
  unfolding gen_cell_def
  apply (simp only: Let_def)
  apply (intro case_error_rel draw_then_rel_sum rng_equiv_uniform [OF assms(1)]
      synth_bands_equiv [OF assms(1)] thin_cloud_equiv [OF assms(1)])
  apply (simp_all add: assms(2))
  done

lemma gen_row_equiv:
  assumes "rng_equiv R1 R2 rel" "rel s t"
  shows "rel_sum (=) (rel_prod (=) rel)
           (gen_row R1 rows cols centers rg cb r cs s records)
           (gen_row R2 rows cols centers rg cb r cs t records)"
  using assms(2)
proof (induction cs arbitrary: s t records)
  case Nil
  then show ?case by simp
next
  case (Cons c cs)
  show ?case
    unfolding gen_row.simps
    by (rule bind_sum_rel [OF gen_cell_equiv [OF assms(1) Cons.prems]]) (rule Cons.IH)
qed

lemma gen_rows_equiv:
  assumes "rng_equiv R1 R2 rel" "rel s t"
  shows "rel_sum (=) (rel_prod (=) rel)
           (gen_rows R1 rows cols centers rg cb rs s records)
           (gen_rows R2 rows cols centers rg cb rs t records)"
  using assms(2)
proof (induction rs arbitrary: s t records)
  case Nil
  then show ?case by simp
next
  case (Cons r rs)
  show ?case
    unfolding gen_rows.simps
    by (rule bind_sum_rel [OF gen_row_equiv [OF assms(1) Cons.prems]]) (rule Cons.IH)
qed

lemma draw_col_bias_equiv:
  assumes "rng_equiv R1 R2 rel" "rel s t"
  shows "rel_prod (=) rel (draw_col_bias R1 cs s) (draw_col_bias R2 cs t)"
  using assms(2)
proof (induction cs arbitrary: s t)
  case Nil
  then show ?case by simp
next
  case (Cons c cs)
  from rng_equiv_gauss [OF assms(1) Cons.prems, of 1 "0.01"]
  have g: "fst (rng_gauss R1 1 0.01 s) = fst (rng_gauss R2 1 0.01 t)"
    "rel (snd (rng_gauss R1 1 0.01 s)) (snd (rng_gauss R2 1 0.01 t))"
    by (simp_all add: rel_prod_sel)
  from Cons.IH [OF g(2)] g(1) show ?case
    by (simp add: split_beta rel_prod_sel Let_def)
qed

text \<open>
  Claim C1. A call of \<open>generate_spectral_grid\<close> creates its own generator from the seed
  and draws every random value from it, one stream threaded through all loops; nothing
  else the function reads can vary. So two calls with the same \<open>rows\<close>, \<open>cols\<close> and \<open>seed\<close>,
  each on its own generator, return the same result (the same error or the same list of
  records, field by field) as soon as the two generators are observationally
  equivalent: seeded alike, they deliver the same draws. Two instances of one
  implementation are equivalent under equality of states.
\<close>

theorem generate_deterministic:
  assumes "rng_equiv R1 R2 rel"
  shows "generate_spectral_grid R1 rows cols seed = generate_spectral_grid R2 rows cols seed"
proof -
  from assms have seeded: "rel (rng_seed R1 seed) (rng_seed R2 seed)"
    by (simp add: rng_equiv_def)
  define d1 where "d1 = draw_col_bias R1 (py_range cols) (rng_seed R1 seed)"
  define d2 where "d2 = draw_col_bias R2 (py_range cols) (rng_seed R2 seed)"
  from draw_col_bias_equiv [OF assms seeded, of "py_range cols"]
  have bias: "fst d1 = fst d2" "rel (snd d1) (snd d2)"
    by (simp_all add: d1_def d2_def rel_prod_sel)
  define rg where "rg = map (\<lambda>r. 1 + 0.04 * sin (real_of_int r / 11)) (py_range rows)"
  define g1 where "g1 = gen_rows R1 rows cols (stress_centers rows cols) rg (fst d1)
      (py_range rows) (snd d1) []"
  define g2 where "g2 = gen_rows R2 rows cols (stress_centers rows cols) rg (fst d2)
      (py_range rows) (snd d2) []"
  have "rel_sum (=) (rel_prod (=) rel) g1 g2"
    unfolding g1_def g2_def bias(1) by (rule gen_rows_equiv [OF assms bias(2)])
  then have "(case g1 of Inl e \<Rightarrow> Inl e | Inr (records, s) \<Rightarrow> Inr records)
      = (case g2 of Inl e \<Rightarrow> Inl e | Inr (records, s) \<Rightarrow> Inr records)"
    by (cases g1; cases g2) auto
  then show ?thesis
    by (simp add: generate_spectral_grid_def Let_def split_beta d1_def d2_def rg_def g1_def g2_def)
qed

lemma rng_equiv_counter_offset:
  "rng_equiv counter_rng offset_rng (\<lambda>s t. t = int s + 100)"
  by (simp add: rng_equiv_def counter_rng_def offset_rng_def)

theorem generate_deterministic_witness:
  "rng_equiv counter_rng offset_rng (\<lambda>s t. t = int s + 100)
   \<and> rng_equiv counter_rng counter_rng (=)
   \<and> generate_spectral_grid counter_rng 4 4 42 = generate_spectral_grid offset_rng 4 4 42"
  using generate_deterministic [OF rng_equiv_counter_offset, of 4 4 42]
    rng_equiv_counter_offset
  by (simp add: rng_equiv_def)

section \<open>NDVI and the field summary\<close>

lemma results_loop_map:
  "results_loop w records results =
     results @ map (\<lambda>a. (row (heap w a), col (heap w a), plot_id (heap w a),
                         ndvi (red_665 (heap w a)) (nir_842 (heap w a)))) records"
  by (induction records arbitrary: results) (simp_all add: Let_def)

lemma finite_values_map:
  "finite_values (map (\<lambda>a. (f a, g a, h a, ndvi (red a) (nir a))) xs)
     = map (\<lambda>a. (nir a - red a) / (nir a + red a)) (filter (\<lambda>a. nir a + red a \<noteq> 0) xs)"
  by (induction xs) (simp_all add: ndvi_def Let_def)

lemma field_summary_values:
  "field_summary results =
     (let vs = finite_values results in
      if vs = [] then (NaN, NaN, NaN)
      else (Num (sum_list vs / real (length vs)), Num (Min (set vs)), Num (Max (set vs))))"
proof (cases "finite_values results")
  case Nil
  then show ?thesis by (simp add: field_summary_def)
next
  case (Cons x xs)
  then show ?thesis
    by (simp add: field_summary_def Let_def Min.set_eq_fold [symmetric] Max.set_eq_fold [symmetric]
        del: set_simps)
qed

lemma run_example_results:
  "fst (run_example w records preview_count) =
     map (\<lambda>a. (row (heap w a), col (heap w a), plot_id (heap w a),
                 ndvi (red_665 (heap w a)) (nir_842 (heap w a)))) records"
  by (simp add: run_example_def Let_def split_beta results_loop_map)

lemma run_example_prints_summary:
  "\<exists>before after. stdout (snd (run_example w records preview_count)) =
      stdout w @ before @ [SummaryLine (fst (field_summary (fst (run_example w records preview_count))))
         (fst (snd (field_summary (fst (run_example w records preview_count)))))
         (snd (snd (field_summary (fst (run_example w records preview_count)))))] @ after"
proof -
  define results where "results = results_loop w records []"
  define n where "n = int (length results)"
  define before where "before = [Header (min preview_count n) n]
      @ preview_loop preview_count 0 results
      @ (if min preview_count n < n then [MoreLine (n - min preview_count n)] else [])
      @ [SummaryHeader]"
  define stressed where "stressed =
      map (\<lambda>(r, c, pid, v). pid) (filter (\<lambda>(r, c, pid, v). py_less v 0.30) results)"
  define after where "after = (if stressed \<noteq> [] then [StressedLine stressed] else [NoStressLine])"
  have res: "fst (run_example w records preview_count) = results"
    by (simp add: run_example_def Let_def split_beta results_def)
  have "stdout (snd (run_example w records preview_count)) =
      stdout w @ before @ [SummaryLine (fst (field_summary results))
         (fst (snd (field_summary results))) (snd (snd (field_summary results)))] @ after"
    by (simp add: run_example_def Let_def split_beta results_def n_def before_def
        stressed_def after_def)
  then show ?thesis
    unfolding res by (intro exI)
qed

text \<open>
  Claim C5. For every \<open>red\<close> and \<open>nir\<close>, \<open>ndvi\<close> returns \<open>(nir - red) / (nir + red)\<close> when
  \<open>nir + red\<close> is not zero, and returns \<^verbatim>\<open>nan\<close> (a value, not an error) exactly when
  \<open>nir + red\<close> is zero. The mean, minimum and maximum that \<open>run_example\<close> computes and
  prints are those of the NDVI numbers of the records with a non-zero denominator: the
  undefined values are left out, and all three are \<^verbatim>\<open>nan\<close> when nothing is left.
\<close>

theorem ndvi_formula_and_undefined_excluded:
  "(nir + red \<noteq> 0 \<longrightarrow> ndvi red nir = Num ((nir - red) / (nir + red)))
   \<and> (ndvi red nir = NaN \<longleftrightarrow> nir + red = 0)
   \<and> (let vs = defined_ndvi_values w records;
          m = (if vs = [] then NaN else Num (sum_list vs / real (length vs)));
          lo = (if vs = [] then NaN else Num (Min (set vs)));
          hi = (if vs = [] then NaN else Num (Max (set vs)))
      in field_summary (fst (run_example w records preview_count)) = (m, lo, hi)
         \<and> (\<exists>before after. stdout (snd (run_example w records preview_count))
               = stdout w @ before @ [SummaryLine m lo hi] @ after))"
proof -
  have formula: "nir + red \<noteq> 0 \<longrightarrow> ndvi red nir = Num ((nir - red) / (nir + red))"
    and undefined: "ndvi red nir = NaN \<longleftrightarrow> nir + red = 0"
    by (simp_all add: ndvi_def Let_def)
  define vs where "vs = defined_ndvi_values w records"
  define m where "m = (if vs = [] then NaN else Num (sum_list vs / real (length vs)))"
  define lo where "lo = (if vs = [] then NaN else Num (Min (set vs)))"
  define hi where "hi = (if vs = [] then NaN else Num (Max (set vs)))"
  have "finite_values (fst (run_example w records preview_count)) = vs"
    unfolding run_example_results vs_def defined_ndvi_values_def
    by (rule finite_values_map)
  then have summary: "field_summary (fst (run_example w records preview_count)) = (m, lo, hi)"
    by (simp add: field_summary_values m_def lo_def hi_def)
  from run_example_prints_summary [of w records preview_count]
  have "\<exists>before after. stdout (snd (run_example w records preview_count))
               = stdout w @ before @ [SummaryLine m lo hi] @ after"
    unfolding summary by simp
  with summary have "field_summary (fst (run_example w records preview_count)) = (m, lo, hi)
         \<and> (\<exists>before after. stdout (snd (run_example w records preview_count))
               = stdout w @ before @ [SummaryLine m lo hi] @ after)" by simp
  then have "let vs = defined_ndvi_values w records;
          m = (if vs = [] then NaN else Num (sum_list vs / real (length vs)));
          lo = (if vs = [] then NaN else Num (Min (set vs)));
          hi = (if vs = [] then NaN else Num (Max (set vs)))
      in field_summary (fst (run_example w records preview_count)) = (m, lo, hi)
         \<and> (\<exists>before after. stdout (snd (run_example w records preview_count))
               = stdout w @ before @ [SummaryLine m lo hi] @ after)"
    unfolding m_def lo_def hi_def vs_def Let_def .
  with formula undefined show ?thesis by (intro conjI)
qed

theorem ndvi_formula_and_undefined_excluded_witness:
  "(0.6::real) + 0.2 \<noteq> 0 \<and> ndvi 0.2 0.6 = Num 0.5 \<and> ndvi 0 0 = NaN
   \<and> defined_ndvi_values example_world [0, 1, 2] = [1 / 2, 1 / 4]
   \<and> field_summary (fst (run_example example_world [0, 1, 2] 80))
        = (Num (3 / 8), Num (1 / 4), Num (1 / 2))"
proof -
  have vs: "defined_ndvi_values example_world [0, 1, 2] = [1 / 2, 1 / 4]"
    by (simp add: defined_ndvi_values_def example_world_def example_record_def)
  note a = ndvi_formula_and_undefined_excluded [of "0.6" "0.2" example_world "[0, 1, 2]" 80,
      unfolded Let_def vs]
  note b = ndvi_formula_and_undefined_excluded [of 0 0 example_world "[0, 1, 2]" 80]
  from a have "ndvi 0.2 0.6 = Num 0.5"
    and "field_summary (fst (run_example example_world [0, 1, 2] 80))
        = (Num (3 / 8), Num (1 / 4), Num (1 / 2))"
    by simp_all
  moreover from b have "ndvi 0 0 = NaN" by simp
  ultimately show ?thesis
    by (simp only: vs) simp
qed

section \<open>The records are not mutated\<close>

text \<open>
  Claim C9. For every store and every sequence of records in it, running \<open>run_example\<close>
  and then \<open>visualize_ndvi\<close> on its results (or either of them alone) leaves the store
  as it was: every field of every record is unchanged. They add printed lines and an
  image file to the world, and nothing else.
\<close>

theorem analyser_visualiser_keep_records:
  "heap (snd (run_example w records preview_count)) = heap w
   \<and> heap (visualize_ndvi w results rows cols outfile) = heap w
   \<and> heap (visualize_ndvi (snd (run_example w records preview_count))
             (fst (run_example w records preview_count)) rows cols outfile) = heap w"
  by (simp add: run_example_def visualize_ndvi_def Let_def split_beta)

section \<open>Saving and loading\<close>

subsection \<open>Numbers come back rounded, rows come back as written\<close>

lemma str_nat_nonempty: "str_nat n \<noteq> []"
  by (subst str_nat.simps) simp

lemma all_digits_str_nat: "all_digits (str_nat n)"
  using digits_str_nat [of n] by (simp add: all_digits_def str_nat_nonempty list_all_iff)

lemma not_is_digit_signs:
  "\<not> is_digit CHR ''-''" "\<not> is_digit CHR ''+''" "\<not> is_digit CHR ''.''"
  by (simp_all add: is_digit_def)

lemma str_nat_head:
  obtains c ds where "str_nat n = c # ds" "is_digit c"
proof -
  obtain c ds where s: "str_nat n = c # ds"
    using str_nat_nonempty [of n] by (cases "str_nat n") simp_all
  with digits_str_nat [of n] have "is_digit c" by simp
  with s show ?thesis by (rule that)
qed

lemma py_int_str_int: "py_int (Some (str_int i)) = Inr i"
proof (cases "i < 0")
  case True
  then show ?thesis
    by (simp add: py_int_def str_int_def all_digits_str_nat nat_of_digits_str_nat)
next
  case False
  obtain c ds where s: "str_nat (nat i) = c # ds" and c: "is_digit c"
    by (rule str_nat_head)
  from c not_is_digit_signs have "c \<noteq> CHR ''-''" "c \<noteq> CHR ''+''" by auto
  moreover have "all_digits (c # ds)" "nat_of_digits (c # ds) = nat i"
    using all_digits_str_nat [of "nat i"] nat_of_digits_str_nat [of "nat i"] by (simp_all add: s)
  ultimately show ?thesis
    using False by (simp add: py_int_def str_int_def s)
qed

lemma length_str_nat: "n < 10 ^ Suc k \<Longrightarrow> length (str_nat n) \<le> Suc k"
proof (induction k arbitrary: n)
  case 0
  then show ?case by (simp add: str_nat_small)
next
  case (Suc k)
  show ?case
  proof (cases "n < 10")
    case True
    then show ?thesis by (simp add: str_nat_small)
  next
    case False
    from Suc.prems have "n div 10 < 10 ^ Suc k" by (simp add: less_mult_imp_div_less)
    from Suc.IH [OF this] False show ?thesis by (simp add: str_nat_large)
  qed
qed

lemma length_zfill_4: "b < 10000 \<Longrightarrow> length (zfill 4 (str_nat b)) = 4"
  using length_str_nat [of b 3] by (simp add: zfill_def)

lemma dropWhile_until_sep: "x \<notin> set a \<Longrightarrow> dropWhile (\<lambda>y. y \<noteq> x) (a @ x # b) = x # b"
  by (induction a) auto

lemma point_not_in_str_nat: "CHR ''.'' \<notin> set (str_nat n)"
  using digits_str_nat [of n] not_is_digit_signs(3) by blast

lemma decimal_value_fixed:
  assumes "b < 10000"
  shows "decimal_value (str_nat a @ ''.'' @ zfill 4 (str_nat b)) = Inr (real a + real b / 10000)"
proof -
  have ip: "takeWhile (\<lambda>c. c \<noteq> CHR ''.'') (str_nat a @ ''.'' @ zfill 4 (str_nat b)) = str_nat a"
    using takeWhile_until_sep [OF point_not_in_str_nat, of a "zfill 4 (str_nat b)"] by simp
  have fp: "drop 1 (dropWhile (\<lambda>c. c \<noteq> CHR ''.'') (str_nat a @ ''.'' @ zfill 4 (str_nat b)))
      = zfill 4 (str_nat b)"
    using dropWhile_until_sep [OF point_not_in_str_nat, of a "zfill 4 (str_nat b)"] by simp
  have d1: "list_all is_digit (str_nat a)" "list_all is_digit (zfill 4 (str_nat b))"
    using digits_str_nat [of a] digits_zfill [of 4 b] by (simp_all add: list_all_iff)
  show ?thesis
    unfolding decimal_value_def ip fp Let_def
    using d1 by (simp add: str_nat_nonempty nat_of_digits_str_nat nat_of_digits_zfill
        length_zfill_4 [OF assms])
qed

lemma round_half_even_nonneg: "0 \<le> y \<Longrightarrow> 0 \<le> round_half_even y"
proof -
  assume "0 \<le> y"
  then have "0 \<le> \<lfloor>y\<rfloor>" by simp
  then show ?thesis by (simp add: round_half_even_def Let_def)
qed

lemma round_half_even_minus: "round_half_even (- y) = - round_half_even y"
proof -
  define f where "f = \<lfloor>y\<rfloor>"
  define d where "d = y - of_int f"
  have d: "0 \<le> d" "d < 1" unfolding d_def f_def by linarith+
  have y: "y = of_int f + d" by (simp add: d_def)
  have ry: "round_half_even y =
      (if d < 1 / 2 then f else if 1 / 2 < d then f + 1 else if even f then f else f + 1)"
    by (simp add: round_half_even_def Let_def f_def d_def)
  show ?thesis
  proof (cases "d = 0")
    case True
    then have "- y = of_int (- f)" by (simp add: y)
    then have "\<lfloor>- y\<rfloor> = - f" by (metis floor_of_int)
    with True y have "round_half_even (- y) = - f"
      by (simp add: round_half_even_def Let_def)
    with True ry show ?thesis by simp
  next
    case False
    with d have pos: "0 < d" by simp
    have fl: "\<lfloor>- y\<rfloor> = - f - 1"
      by (rule floor_unique) (use d pos in \<open>simp_all add: y\<close>)
    have d': "- y - of_int (- f - 1) = 1 - d" by (simp add: y)
    have rny: "round_half_even (- y) =
      (if 1 - d < 1 / 2 then - f - 1 else if 1 / 2 < 1 - d then - f
       else if even (- f - 1) then - f - 1 else - f)"
      unfolding round_half_even_def Let_def fl d' by simp
    consider "d < 1 / 2" | "1 / 2 < d" | "d = 1 / 2" by linarith
    then show ?thesis
    proof cases
      case 1
      then show ?thesis by (simp add: ry rny)
    next
      case 2
      then show ?thesis by (simp add: ry rny)
    next
      case 3
      then show ?thesis by (simp add: ry rny)
    qed
  qed
qed

lemma first_char_not_sign:
  obtains c ds where "str_nat a @ rest = c # ds" "c \<noteq> CHR ''-''" "c \<noteq> CHR ''+''"
proof -
  obtain c ds where s: "str_nat a = c # ds" and c: "is_digit c"
    by (rule str_nat_head)
  from c not_is_digit_signs have "c \<noteq> CHR ''-''" "c \<noteq> CHR ''+''" by auto
  with s show ?thesis by (intro that [of c "ds @ rest"]) simp_all
qed

lemma py_float_fmt_4f: "py_float (Some (fmt_4f x)) = Inr (round4 x)"
proof -
  define q where "q = nat (round_half_even (\<bar>x\<bar> * 10000))"
  define body where "body = str_nat (q div 10000) @ ''.'' @ zfill 4 (str_nat (q mod 10000))"
  have "decimal_value body = Inr (real (q div 10000) + real (q mod 10000) / 10000)"
    unfolding body_def by (rule decimal_value_fixed) simp
  also have "real (q div 10000) + real (q mod 10000) / 10000 = real q / 10000"
  proof -
    have "real q = real (q div 10000 * 10000 + q mod 10000)" by simp
    also have "\<dots> = real (q div 10000) * 10000 + real (q mod 10000)"
      by (simp only: of_nat_add of_nat_mult of_nat_numeral)
    finally show ?thesis by simp
  qed
  finally have dv: "decimal_value body = Inr (real q / 10000)" .
  have rq: "real q = real_of_int (round_half_even (\<bar>x\<bar> * 10000))"
    unfolding q_def using round_half_even_nonneg [of "\<bar>x\<bar> * 10000"] by simp
  have fmt: "fmt_4f x = (if x < 0 then CHR ''-'' # body else body)"
    by (simp add: fmt_4f_def Let_def q_def body_def)
  show ?thesis
  proof (cases "x < 0")
    case True
    then have "\<bar>x\<bar> * 10000 = - (x * 10000)" by simp
    then have "round_half_even (x * 10000) = - round_half_even (\<bar>x\<bar> * 10000)"
      using round_half_even_minus [of "x * 10000"] by simp
    with True show ?thesis
      by (simp add: fmt py_float_def dv rq round4_def)
  next
    case False
    obtain c ds where b: "body = c # ds" and c: "c \<noteq> CHR ''-''" "c \<noteq> CHR ''+''"
      unfolding body_def by (rule first_char_not_sign)
    from False have "\<bar>x\<bar> = x" by simp
    with False dv [unfolded b] c show ?thesis
      by (simp add: fmt py_float_def b rq round4_def)
  qed
qed

lemma special_chars_distinct:
  "CR \<noteq> LF" "CR \<noteq> CHR 0x22" "CR \<noteq> CHR '',''" "LF \<noteq> CHR 0x22" "LF \<noteq> CHR '',''"
  "LF \<noteq> CR" "CHR 0x22 \<noteq> CR" "CHR '','' \<noteq> CR" "CHR 0x22 \<noteq> LF" "CHR '','' \<noteq> LF"
  by (simp_all add: CR_def LF_def)

lemma reader_in_field:
  assumes "\<forall>c\<in>set s. c \<noteq> LF \<and> c \<noteq> CHR '',''"
  shows "csv_reader InField fld cur (s @ CHR '','' # rest)
           = csv_reader StartField [] (cur @ [fld @ s]) rest"
    and "csv_reader InField fld cur (s @ LF # rest)
           = (cur @ [fld @ s]) # csv_reader StartRecord [] [] rest"
  using assms by (induction s arbitrary: fld) (simp_all add: special_chars_distinct)

lemma reader_in_quoted:
  "csv_reader InQuotedField fld cur (quote_escape s @ CHR 0x22 # CHR '','' # rest)
     = csv_reader StartField [] (cur @ [fld @ s]) rest"
  "csv_reader InQuotedField fld cur (quote_escape s @ CHR 0x22 # LF # rest)
     = (cur @ [fld @ s]) # csv_reader StartRecord [] [] rest"
  by (induction s arbitrary: fld) (simp_all add: quote_escape_def special_chars_distinct)

lemma csv_field_cases:
  "csv_field s = (if needs_quote s then CHR 0x22 # quote_escape s @ [CHR 0x22] else s)"
  by (simp add: csv_field_def quote_escape_def)

lemma reader_field_from_start_field:
  "csv_reader StartField fld cur (csv_field s @ CHR '','' # rest)
     = csv_reader StartField [] (cur @ [s]) rest"
  "csv_reader StartField fld cur (csv_field s @ LF # rest)
     = (cur @ [s]) # csv_reader StartRecord [] [] rest"
proof -
  show "csv_reader StartField fld cur (csv_field s @ CHR '','' # rest)
     = csv_reader StartField [] (cur @ [s]) rest"
  proof (cases "needs_quote s")
    case True
    then show ?thesis
      using reader_in_quoted(1) [of "[]" cur s rest] by (simp add: csv_field_cases special_chars_distinct)
  next
    case False
    show ?thesis
    proof (cases s)
      case Nil
      then show ?thesis using False by (simp add: csv_field_cases special_chars_distinct)
    next
      case (Cons c s')
      with False have c: "c \<noteq> LF" "c \<noteq> CHR 0x22" "c \<noteq> CHR '',''"
        and s': "\<forall>c\<in>set s'. c \<noteq> LF \<and> c \<noteq> CHR '',''"
        by (auto simp: needs_quote_def)
      with False Cons reader_in_field(1) [OF s', of "[c]" cur rest] show ?thesis
        by (simp add: csv_field_cases)
    qed
  qed
  show "csv_reader StartField fld cur (csv_field s @ LF # rest)
     = (cur @ [s]) # csv_reader StartRecord [] [] rest"
  proof (cases "needs_quote s")
    case True
    then show ?thesis
      using reader_in_quoted(2) [of "[]" cur s rest] by (simp add: csv_field_cases special_chars_distinct)
  next
    case False
    show ?thesis
    proof (cases s)
      case Nil
      then show ?thesis using False by (simp add: csv_field_cases special_chars_distinct)
    next
      case (Cons c s')
      with False have c: "c \<noteq> LF" "c \<noteq> CHR 0x22" "c \<noteq> CHR '',''"
        and s': "\<forall>c\<in>set s'. c \<noteq> LF \<and> c \<noteq> CHR '',''"
        by (auto simp: needs_quote_def)
      with False Cons reader_in_field(2) [OF s', of "[c]" cur rest] show ?thesis
        by (simp add: csv_field_cases)
    qed
  qed
qed

lemma reader_start_record:
  "c \<noteq> LF \<Longrightarrow> csv_reader StartRecord fld cur (c # cs) = csv_reader StartField [] [] (c # cs)"
  by simp

lemma csv_field_first_char:
  "csv_field s @ CHR '','' # rest \<noteq> [] \<and> hd (csv_field s @ CHR '','' # rest) \<noteq> LF"
  by (cases s) (auto simp: csv_field_cases needs_quote_def special_chars_distinct)

lemma reader_first_field:
  "csv_reader StartRecord fld cur (csv_field s @ CHR '','' # rest)
     = csv_reader StartField [] [s] rest"
proof -
  obtain c cs where t: "csv_field s @ CHR '','' # rest = c # cs"
    using csv_field_first_char [of s rest] by (cases "csv_field s @ CHR '','' # rest") simp_all
  with csv_field_first_char [of s rest] have "c \<noteq> LF" by simp
  then have "csv_reader StartRecord fld cur (c # cs) = csv_reader StartField [] [] (c # cs)"
    by (rule reader_start_record)
  then show ?thesis
    unfolding t [symmetric] by (simp add: reader_field_from_start_field(1))
qed

lemma reader_rest_of_row:
  "csv_reader StartField fld cur (join_fields (map csv_field (g # gs)) @ LF # rest)
     = (cur @ g # gs) # csv_reader StartRecord [] [] rest"
proof (induction gs arbitrary: g cur fld)
  case Nil
  then show ?case by (simp add: reader_field_from_start_field(2))
next
  case (Cons h gs)
  have "csv_reader StartField fld cur (join_fields (map csv_field (g # h # gs)) @ LF # rest)
      = csv_reader StartField fld cur
          (csv_field g @ CHR '','' # (join_fields (map csv_field (h # gs)) @ LF # rest))"
    by simp
  also have "\<dots> = csv_reader StartField [] (cur @ [g])
      (join_fields (map csv_field (h # gs)) @ LF # rest)"
    by (rule reader_field_from_start_field(1))
  also have "\<dots> = ((cur @ [g]) @ h # gs) # csv_reader StartRecord [] [] rest"
    by (rule Cons.IH)
  finally show ?case by simp
qed

lemma reader_row:
  "csv_reader StartRecord [] [] (join_fields (map csv_field (f # g # gs)) @ LF # rest)
     = (f # g # gs) # csv_reader StartRecord [] [] rest"
proof -
  have "csv_reader StartRecord [] [] (join_fields (map csv_field (f # g # gs)) @ LF # rest)
      = csv_reader StartRecord [] []
          (csv_field f @ CHR '','' # (join_fields (map csv_field (g # gs)) @ LF # rest))"
    by simp
  also have "\<dots> = csv_reader StartField [] [f]
      (join_fields (map csv_field (g # gs)) @ LF # rest)"
    by (rule reader_first_field)
  also have "\<dots> = ([f] @ g # gs) # csv_reader StartRecord [] [] rest"
    by (rule reader_rest_of_row)
  finally show ?thesis by simp
qed

lemma universal_newlines_no_cr:
  "CR \<notin> set a \<Longrightarrow> universal_newlines (a @ b) = a @ universal_newlines b"
  by (induction a) auto

lemma universal_newlines_row:
  assumes "CR \<notin> set body"
  shows "universal_newlines ((body @ [CR, LF]) @ rest) = body @ LF # universal_newlines rest"
  using universal_newlines_no_cr [OF assms, of "CR # LF # rest"] by simp

lemma cr_free_csv_field: "CR \<notin> set s \<Longrightarrow> CR \<notin> set (csv_field s)"
  by (auto simp: csv_field_def special_chars_distinct split: if_splits)

lemma cr_free_join_fields:
  "\<forall>f\<in>set flds. CR \<notin> set f \<Longrightarrow> CR \<notin> set (join_fields (map csv_field flds))"
  by (induction flds rule: join_fields.induct)
     (simp_all add: cr_free_csv_field special_chars_distinct)

lemma read_written_row:
  assumes "\<forall>f\<in>set (f # g # gs). CR \<notin> set f"
  shows "csv_reader StartRecord [] [] (universal_newlines (csv_writerow (f # g # gs) @ rest))
     = (f # g # gs) # csv_reader StartRecord [] [] (universal_newlines rest)"
proof -
  have w: "csv_writerow (f # g # gs) = join_fields (map csv_field (f # g # gs)) @ [CR, LF]"
    by (simp add: csv_writerow_def)
  have cf: "CR \<notin> set (join_fields (map csv_field (f # g # gs)))"
    using assms by (rule cr_free_join_fields)
  have "universal_newlines (csv_writerow (f # g # gs) @ rest)
      = join_fields (map csv_field (f # g # gs)) @ LF # universal_newlines rest"
    unfolding w by (rule universal_newlines_row [OF cf])
  then show ?thesis
    by (simp only: reader_row)
qed

lemma write_rows_concat:
  "write_rows f records = f @ concat (map (\<lambda>rec. csv_writerow (record_fields rec)) records)"
  by (induction records arbitrary: f) simp_all

lemma cr_free_str_nat: "CR \<notin> set (str_nat n)"
proof -
  have "\<not> is_digit CR" by (simp add: is_digit_def CR_def)
  with digits_str_nat [of n] show ?thesis by blast
qed

lemma cr_free_str_int: "CR \<notin> set (str_int i)"
  using cr_free_str_nat by (simp add: str_int_def CR_def)

lemma cr_free_fmt_4f: "CR \<notin> set (fmt_4f x)"
proof -
  have "\<not> is_digit CR" by (simp add: is_digit_def CR_def)
  with digits_zfill [of 4] have "CR \<notin> set (zfill 4 (str_nat n))" for n by blast
  with cr_free_str_nat show ?thesis
    by (simp add: fmt_4f_def Let_def CR_def)
qed

lemma record_fields_shape:
  "\<exists>f g gs. record_fields rec = f # g # gs"
  by (simp add: record_fields_def)

lemma cr_free_record_fields:
  "CR \<notin> set (plot_id rec) \<Longrightarrow> \<forall>f\<in>set (record_fields rec). CR \<notin> set f"
  by (simp add: record_fields_def cr_free_str_int cr_free_fmt_4f)

lemma read_written_records:
  assumes "\<forall>rec\<in>set records. CR \<notin> set (plot_id rec)"
  shows "csv_reader StartRecord [] []
           (universal_newlines (concat (map (\<lambda>rec. csv_writerow (record_fields rec)) records)))
     = map record_fields records"
  using assms
proof (induction records)
  case Nil
  then show ?case by simp
next
  case (Cons rec records)
  obtain f g gs where shape: "record_fields rec = f # g # gs"
    using record_fields_shape by blast
  from Cons.prems have "CR \<notin> set (plot_id rec)" by simp
  then have "\<forall>f\<in>set (record_fields rec). CR \<notin> set f"
    by (rule cr_free_record_fields)
  then have free: "\<forall>f\<in>set (f # g # gs). CR \<notin> set f" by (simp only: shape)
  from Cons.prems have "\<forall>rec\<in>set records. CR \<notin> set (plot_id rec)" by simp
  from Cons.IH [OF this] read_written_row [OF free] show ?case
    by (simp add: shape)
qed

lemma read_written_file:
  assumes "\<forall>rec\<in>set records. CR \<notin> set (plot_id rec)"
  shows "csv_reader StartRecord [] []
           (universal_newlines (write_rows (csv_writerow csv_header) records))
     = csv_header # map record_fields records"
proof -
  obtain f g gs where h: "csv_header = f # g # gs"
    by (simp add: csv_header_def)
  have "\<forall>f\<in>set csv_header. CR \<notin> set f"
    by (simp add: csv_header_def CR_def)
  then have free: "\<forall>f\<in>set (f # g # gs). CR \<notin> set f" by (simp only: h)
  show ?thesis
    unfolding write_rows_concat h
    by (simp only: read_written_row [OF free] read_written_records [OF assms])
qed

lemma record_of_written_row:
  "record_of_row (dict_row csv_header (record_fields rec)) = Inr (round_record rec)"
  by (simp add: record_of_row_def dict_row_def csv_header_def record_fields_def getitem_def
      get_str_def get_int_def get_float_def bind_err_def py_int_str_int py_float_fmt_4f
      round_record_def)

lemma read_written_rows:
  "read_rows csv_header (map record_fields records) acc = Inr (acc @ map round_record records)"
proof (induction records arbitrary: acc)
  case Nil
  then show ?case by simp
next
  case (Cons rec records)
  have "record_fields rec \<noteq> []" by (simp add: record_fields_def)
  with Cons.IH [of "acc @ [round_record rec]"] show ?case
    by (simp add: record_of_written_row)
qed

text \<open>
  The round trip of records whose plot ids hold no carriage return: loading what was
  saved gives the same records in the same order, with \<open>plot_id\<close>, \<open>row\<close> and \<open>col\<close> as they
  were and every band rounded to four decimal places.
\<close>

lemma roundtrip_without_carriage_return:
  assumes "\<forall>rec\<in>set records. CR \<notin> set (plot_id rec)"
  shows "load_records_csv (save_records_csv fs records path) path = Inr (map round_record records)"
proof -
  have "load_records_csv (save_records_csv fs records path) path
      = read_rows csv_header (map record_fields records) []"
    by (simp only: load_records_csv_def save_records_csv_def fun_upd_same option.case
        read_written_file [OF assms] list.case)
  then show ?thesis by (simp add: read_written_rows)
qed

subsection \<open>A plot id with a carriage return\<close>

lemma str_int_zero: "str_int 0 = ''0''"
  by (simp add: str_int_def str_nat_small digit_char_def)

lemma fmt_4f_examples:
  "fmt_4f (1 / 20) = ''0.0500''" "fmt_4f (1 / 5) = ''0.2000''" "fmt_4f (3 / 10) = ''0.3000''"
  "fmt_4f (7 / 20) = ''0.3500''" "fmt_4f (3 / 5) = ''0.6000''" "fmt_4f (1 / 4) = ''0.2500''"
  by (simp_all add: fmt_4f_def round_half_even_def Let_def str_nat_small str_nat_large zfill_def
      digit_char_def)

lemma cr_record_fields:
  "record_fields cr_record = [''A'' @ [CR] @ ''B'', ''0'', ''0'', ''0.0500'', ''0.2000'',
     ''0.2000'', ''0.3000'', ''0.3500'', ''0.6000'', ''0.6000'', ''0.2500'', ''0.3000'']"
  by (simp add: record_fields_def cr_record_def example_record_def fmt_4f_examples str_int_zero)

lemma cr_record_read:
  "csv_reader StartRecord [] []
     (universal_newlines (write_rows (csv_writerow csv_header) [cr_record]))
   = [csv_header, [[CHR ''A'', LF, CHR ''B''], ''0'', ''0'', ''0.0500'', ''0.2000'',
        ''0.2000'', ''0.3000'', ''0.3500'', ''0.6000'', ''0.6000'', ''0.2500'', ''0.3000'']]"
  by (simp add: cr_record_fields csv_writerow_def csv_field_def needs_quote_def csv_header_def
      CR_def LF_def)

lemma cr_record_row:
  "record_of_row (dict_row csv_header [[CHR ''A'', LF, CHR ''B''], ''0'', ''0'', ''0.0500'',
       ''0.2000'', ''0.2000'', ''0.3000'', ''0.3500'', ''0.6000'', ''0.6000'', ''0.2500'', ''0.3000''])
   = Inr (example_record [CHR ''A'', LF, CHR ''B''] 0 0 (1 / 5) (3 / 5))"
  by (simp add: record_of_row_def dict_row_def csv_header_def getitem_def get_str_def get_int_def
      get_float_def bind_err_def py_int_def py_float_def decimal_value_def all_digits_def
      is_digit_def nat_of_digits_def digit_val_def example_record_def Let_def)

text \<open>
  Claim C8 where the code departs from it. The claim says that saving any list of records
  and loading it again gives back every \<open>plot_id\<close>, \<open>row\<close> and \<open>col\<close> exactly.
  \<open>save_records_csv\<close> opens the file with \<^verbatim>\<open>newline=""\<close>, as the \<^verbatim>\<open>csv\<close> module asks;
  \<open>load_records_csv\<close> opens it without, so the text is read with universal newlines. A
  record whose plot id is \<open>A\<close>, carriage return, \<open>B\<close> is written as a quoted field with the
  carriage return inside, and read back with a line feed in its place: the loaded plot
  id differs from the saved one. The numeric fields of this record come back as they
  were.
\<close>

theorem carriage_return_plot_id_not_restored:
  "load_records_csv (save_records_csv fs [cr_record] path) path
     = Inr [example_record (''A'' @ [LF] @ ''B'') 0 0 0.2 0.6]
   \<and> plot_id cr_record = ''A'' @ [CR] @ ''B''
   \<and> plot_id (example_record (''A'' @ [LF] @ ''B'') 0 0 0.2 0.6) \<noteq> plot_id cr_record"
proof -
  have "load_records_csv (save_records_csv fs [cr_record] path) path
      = read_rows csv_header [[[CHR ''A'', LF, CHR ''B''], ''0'', ''0'', ''0.0500'', ''0.2000'',
          ''0.2000'', ''0.3000'', ''0.3500'', ''0.6000'', ''0.6000'', ''0.2500'', ''0.3000'']] []"
    by (simp only: load_records_csv_def save_records_csv_def fun_upd_same option.case
        cr_record_read list.case)
  also have "\<dots> = Inr [example_record [CHR ''A'', LF, CHR ''B''] 0 0 (1 / 5) (3 / 5)]"
    by (simp add: cr_record_row)
  finally show ?thesis
    by (simp add: cr_record_def example_record_def CR_def LF_def)
qed

end
